theory Spec2Isabelle
  imports Main "HOL-Library.Word"
begin

section \<open>Values of the host platform\<close>

text \<open>
  The wallet is a TypeScript module running in a browser.  A \<^verbatim>\<open>Uint8Array\<close> or
  \<^verbatim>\<open>Buffer\<close> is a list of bytes; an ECMAScript string is a sequence of UTF-16 code
  units, so \<^verbatim>\<open>s.length\<close> is \<open>length s\<close>.  ASCII literals of the source are written
  with \<open>lit\<close>.
\<close>

type_synonym byte = "8 word"
type_synonym bytes = "byte list"
type_synonym jsstring = "16 word list"

definition lit :: "string \<Rightarrow> jsstring" where
  "lit s = map (\<lambda>c. of_nat (of_char c)) s"

text \<open>Exceptions (rejected promises) are values: the error classes the calls can raise.\<close>

datatype js_error = TypeError | RangeError | OperationError | SyntaxError | Error jsstring

text \<open>
  The ambient state of the page that the service can touch: the output that
  \<^verbatim>\<open>crypto.getRandomValues\<close> will produce from now on, and \<^verbatim>\<open>localStorage\<close>.
  An \<^verbatim>\<open>async\<close> method is a function from the world to its outcome and the world after it.
\<close>

record world =
  rng :: "nat \<Rightarrow> byte"
  localStorage :: "jsstring \<rightharpoonup> jsstring"

type_synonym 'a promise = "world \<Rightarrow> (js_error + 'a) \<times> world"

definition getRandomValues :: "nat \<Rightarrow> world \<Rightarrow> bytes \<times> world" where
  "getRandomValues n w = (map (rng w) [0..<n], w\<lparr>rng := (\<lambda>i. rng w (i + n))\<rparr>)"

section \<open>KeyDerivation: \<^verbatim>\<open>WalletService.createWallet\<close>\<close>

datatype network = bitcoin | testnet

record WalletData =
  mnemonic :: jsstring
  address :: jsstring
  publicKey :: jsstring
  network :: network

text \<open>\<^verbatim>\<open>bitcoin.networks.bitcoin\<close> and \<^verbatim>\<open>bitcoin.networks.testnet\<close> of bitcoinjs-lib.\<close>

datatype Network = networks_bitcoin | networks_testnet

text \<open>The fields of a \<^verbatim>\<open>BIP32Interface\<close> node that the wallet and \<^verbatim>\<open>derivePath\<close> read.\<close>

record BIP32Interface =
  node_privateKey :: "bytes option"
  node_publicKey :: bytes
  node_chainCode :: bytes
  node_depth :: nat
  node_index :: nat
  node_parentFingerprint :: nat

text \<open>
  The imported packages are parameters of the model: \<^verbatim>\<open>bip39.mnemonicToSeed\<close>,
  \<^verbatim>\<open>bip32.fromSeed\<close>, the child derivation \<^verbatim>\<open>node.derive(index)\<close> and the address of
  \<^verbatim>\<open>bitcoin.payments.p2wpkh\<close> (\<open>None\<close> is \<^verbatim>\<open>undefined\<close>).
\<close>

record keylib =
  mnemonicToSeed :: "jsstring \<Rightarrow> bytes"
  fromSeed :: "bytes \<Rightarrow> Network \<Rightarrow> js_error + BIP32Interface"
  derive :: "BIP32Interface \<Rightarrow> nat \<Rightarrow> js_error + BIP32Interface"
  p2wpkh :: "bytes \<Rightarrow> Network \<Rightarrow> js_error + jsstring option"

subsection \<open>\<^verbatim>\<open>derivePath\<close> of the bip32 package\<close>

text \<open>\<^verbatim>\<open>HIGHEST_BIT = 0x80000000\<close>: a hardened child has an index at or above it.\<close>

definition HIGHEST_BIT :: nat where
  "HIGHEST_BIT = 2 ^ 31"

definition deriveHardened :: "keylib \<Rightarrow> BIP32Interface \<Rightarrow> nat \<Rightarrow> js_error + BIP32Interface" where
  "deriveHardened L node i = (if i < HIGHEST_BIT then derive L node (i + HIGHEST_BIT) else Inl TypeError)"

fun split_on :: "'a \<Rightarrow> 'a list \<Rightarrow> 'a list list" where
  "split_on sep [] = [[]]"
| "split_on sep (c # cs) =
     (if c = sep then [] # split_on sep cs
      else (case split_on sep cs of [] \<Rightarrow> [[c]] | s # ss \<Rightarrow> (c # s) # ss))"

definition isDigit :: "16 word \<Rightarrow> bool" where
  "isDigit c = (48 \<le> unat c \<and> unat c \<le> 57)"

text \<open>\<^verbatim>\<open>parseInt(s, 10)\<close> on a string that starts with a digit; \<open>None\<close> is \<^verbatim>\<open>NaN\<close>.\<close>

definition parseInt :: "jsstring \<Rightarrow> nat option" where
  "parseInt s =
     (let ds = takeWhile isDigit s
      in if ds = [] then None else Some (foldl (\<lambda>n c. 10 * n + (unat c - 48)) 0 ds))"

definition apostrophe :: "16 word" where
  "apostrophe = 39"

definition slash :: "16 word" where
  "slash = 47"

text \<open>One element of a path: \<^verbatim>\<open>\d+'?\<close>.\<close>

definition isPathElement :: "jsstring \<Rightarrow> bool" where
  "isPathElement s =
     (let ds = (if s \<noteq> [] \<and> last s = apostrophe then butlast s else s)
      in ds \<noteq> [] \<and> list_all isDigit ds)"

text \<open>
  The test \<^verbatim>\<open>indexStr.slice(-1) === "'"\<close> of the reduction over the split path: a
  trailing apostrophe selects \<^verbatim>\<open>deriveHardened\<close>.
\<close>

definition hardenedElement :: "jsstring \<Rightarrow> bool" where
  "hardenedElement indexStr = (indexStr \<noteq> [] \<and> last indexStr = apostrophe)"

fun derivePath_reduce :: "keylib \<Rightarrow> BIP32Interface \<Rightarrow> jsstring list \<Rightarrow> js_error + BIP32Interface" where
  "derivePath_reduce L prevHd [] = Inr prevHd"
| "derivePath_reduce L prevHd (indexStr # rest) =
     (if hardenedElement indexStr then
        (case parseInt (butlast indexStr) of
           None \<Rightarrow> Inl TypeError
         | Some i \<Rightarrow>
             (case deriveHardened L prevHd i of
                Inl e \<Rightarrow> Inl e
              | Inr hd' \<Rightarrow> derivePath_reduce L hd' rest))
      else
        (case parseInt indexStr of
           None \<Rightarrow> Inl TypeError
         | Some i \<Rightarrow>
             (case derive L prevHd i of
                Inl e \<Rightarrow> Inl e
              | Inr hd' \<Rightarrow> derivePath_reduce L hd' rest)))"

definition derivePath :: "keylib \<Rightarrow> BIP32Interface \<Rightarrow> jsstring \<Rightarrow> js_error + BIP32Interface" where
  "derivePath L node path =
     (let splitPath = split_on slash path;
          elements = (if hd splitPath = lit ''m'' \<and> tl splitPath \<noteq> [] then tl splitPath else splitPath)
      in if \<not> list_all isPathElement elements then Inl TypeError
         else if hd splitPath = lit ''m'' then
           (if node_parentFingerprint node \<noteq> 0 then Inl TypeError
            else derivePath_reduce L node (tl splitPath))
         else derivePath_reduce L node splitPath)"

subsection \<open>\<^verbatim>\<open>Buffer.toString('hex')\<close>\<close>

definition hexDigit :: "nat \<Rightarrow> 16 word" where
  "hexDigit d = (if d < 10 then of_nat (48 + d) else of_nat (87 + d))"

definition toHex :: "bytes \<Rightarrow> jsstring" where
  "toHex bs = concat (map (\<lambda>b. [hexDigit (unat b div 16), hexDigit (unat b mod 16)]) bs)"

subsection \<open>createWallet\<close>

text \<open>
  The path string of the source: \<^verbatim>\<open>m/84'/\<close>, then \<^verbatim>\<open>0\<close> when the network is
  \<^verbatim>\<open>'bitcoin'\<close> and \<^verbatim>\<open>1\<close> otherwise, then \<^verbatim>\<open>'/0'/0/0\<close>.
\<close>

definition walletPath :: "network \<Rightarrow> jsstring" where
  "walletPath net =
     lit ''m/84'/'' @ (if net = bitcoin then lit ''0'' else lit ''1'') @ [apostrophe] @ lit ''/0'/0/0''"

text \<open>
  The node \<^verbatim>\<open>child\<close> of createWallet: the seed of the mnemonic, the root of the seed,
  the path walked from the root.
\<close>

definition walletChild :: "keylib \<Rightarrow> jsstring \<Rightarrow> network \<Rightarrow> js_error + BIP32Interface" where
  "walletChild L mnemonic_arg net =
     (let seed = mnemonicToSeed L mnemonic_arg;
          bitcoinNetwork = (if net = bitcoin then networks_bitcoin else networks_testnet)
      in case fromSeed L seed bitcoinNetwork of
           Inl e \<Rightarrow> Inl e
         | Inr root \<Rightarrow> derivePath L root (walletPath net))"

text \<open>
  \<^verbatim>\<open>createWallet(mnemonic, network = 'bitcoin')\<close>: an omitted second argument is \<open>None\<close>.
  The test \<^verbatim>\<open>!address\<close> holds of \<^verbatim>\<open>undefined\<close> and of the empty string.
  The method reads and writes nothing of the world.
\<close>

definition createWallet :: "keylib \<Rightarrow> jsstring \<Rightarrow> network option \<Rightarrow> WalletData promise" where
  "createWallet L mnemonic_arg network_arg w =
     (let net = (case network_arg of None \<Rightarrow> bitcoin | Some n \<Rightarrow> n);
          bitcoinNetwork = (if net = bitcoin then networks_bitcoin else networks_testnet)
      in case walletChild L mnemonic_arg net of
           Inl e \<Rightarrow> (Inl e, w)
         | Inr child \<Rightarrow>
             (case p2wpkh L (node_publicKey child) bitcoinNetwork of
                Inl e \<Rightarrow> (Inl e, w)
              | Inr None \<Rightarrow> (Inl (Error (lit ''Failed to generate address'')), w)
              | Inr (Some addr) \<Rightarrow>
                  if addr = [] then (Inl (Error (lit ''Failed to generate address'')), w)
                  else
                    (Inr \<lparr>mnemonic = mnemonic_arg, address = addr,
                          publicKey = toHex (node_publicKey child), network = net\<rparr>, w)))"

section \<open>Mnemonic phrases: \<^verbatim>\<open>generateMnemonic\<close> and \<^verbatim>\<open>validateMnemonic\<close>\<close>

text \<open>
  The two methods of the service only call the bip39 package, whose code is not part of
  the repository.  The hash function and the word list are parameters.
\<close>

record bip39_params =
  sha256 :: "bytes \<Rightarrow> bytes"
  wordlist :: "jsstring list"

text \<open>
  Bits are written most significant first: the \<open>k\<close> low bits of a number, the number
  of a bit list, the bits of a byte sequence and back, a list cut in groups of \<open>n\<close>,
  words joined by a separator, and the index of a word in a list.
\<close>

fun natToBits :: "nat \<Rightarrow> nat \<Rightarrow> bool list" where
  "natToBits 0 n = []"
| "natToBits (Suc k) n = natToBits k (n div 2) @ [odd n]"

definition bitsToNat :: "bool list \<Rightarrow> nat" where
  "bitsToNat bs = foldl (\<lambda>n b. 2 * n + (if b then 1 else 0)) 0 bs"

definition bytesToBits :: "bytes \<Rightarrow> bool list" where
  "bytesToBits bs = concat (map (\<lambda>b. natToBits 8 (unat b)) bs)"

function chunks :: "nat \<Rightarrow> 'a list \<Rightarrow> 'a list list" where
  "chunks n xs = (if n = 0 \<or> xs = [] then [] else take n xs # chunks n (drop n xs))"
  by pat_completeness auto
termination
  by (relation "measure (\<lambda>(n, xs). length xs)") auto

declare chunks.simps [simp del]

definition bitsToBytes :: "bool list \<Rightarrow> bytes" where
  "bitsToBytes bs = map (\<lambda>g. of_nat (bitsToNat g)) (chunks 8 bs)"

fun join :: "'a \<Rightarrow> 'a list list \<Rightarrow> 'a list" where
  "join sep [] = []"
| "join sep [x] = x"
| "join sep (x # y # ys) = x @ sep # join sep (y # ys)"

fun indexOf :: "'a list \<Rightarrow> 'a \<Rightarrow> nat option" where
  "indexOf [] x = None"
| "indexOf (y # ys) x = (if x = y then Some 0 else map_option Suc (indexOf ys x))"

fun indices :: "'a list \<Rightarrow> 'a list \<Rightarrow> nat list option" where
  "indices wl [] = Some []"
| "indices wl (x # xs) =
     (case indexOf wl x of
        None \<Rightarrow> None
      | Some i \<Rightarrow> (case indices wl xs of None \<Rightarrow> None | Some is \<Rightarrow> Some (i # is)))"

definition space :: "16 word" where
  "space = 32"

text \<open>
  Modelled from the spec: the checksum of an entropy, missing because
  \<^verbatim>\<open>bip39.generateMnemonic\<close> is package code.  The spec's words: the checksum is the
  first bits of the entropy's hash (one bit for every 32 bits of entropy, four for 128).
\<close>

definition checksumBits :: "bip39_params \<Rightarrow> bytes \<Rightarrow> bool list" where
  "checksumBits P entropy = take (length entropy * 8 div 32) (bytesToBits (sha256 P entropy))"

text \<open>
  Modelled from the spec: the words of an entropy, missing for the same reason.  The
  bits of the entropy followed by the checksum are cut in groups of 11, each group is the
  index of a word, and the words are joined by single spaces.
\<close>

definition entropyToMnemonic :: "bip39_params \<Rightarrow> bytes \<Rightarrow> jsstring" where
  "entropyToMnemonic P entropy =
     join space (map (\<lambda>g. wordlist P ! bitsToNat g)
       (chunks 11 (bytesToBits entropy @ checksumBits P entropy)))"

text \<open>
  Modelled from the spec: \<^verbatim>\<open>bip39.generateMnemonic()\<close> draws 128 bits of entropy from
  the secure random source and returns the 12 words of that entropy.
\<close>

definition bip39_generateMnemonic :: "bip39_params \<Rightarrow> world \<Rightarrow> jsstring \<times> world" where
  "bip39_generateMnemonic P w =
     (let (entropy, w') = getRandomValues 16 w in (entropyToMnemonic P entropy, w'))"

text \<open>
  Modelled from the spec: \<^verbatim>\<open>bip39.validateMnemonic\<close> re-derives the checksum from the
  candidate's entropy portion and compares; it returns false for a malformed word count,
  an unknown word or a checksum mismatch.
\<close>

definition bip39_validateMnemonic :: "bip39_params \<Rightarrow> jsstring \<Rightarrow> bool" where
  "bip39_validateMnemonic P phrase =
     (let words = split_on space phrase
      in if length words \<notin> {12, 15, 18, 21, 24} then False
         else (case indices (wordlist P) words of
                 None \<Rightarrow> False
               | Some is \<Rightarrow>
                   (let bits = concat (map (natToBits 11) is);
                        cs = length bits div 33;
                        entropy = bitsToBytes (take (length bits - cs) bits)
                    in take cs (bytesToBits (sha256 P entropy)) = drop (length bits - cs) bits)))"

text \<open>The methods of \<^verbatim>\<open>WalletService\<close>.\<close>

definition generateMnemonic :: "bip39_params \<Rightarrow> world \<Rightarrow> jsstring \<times> world" where
  "generateMnemonic P w = bip39_generateMnemonic P w"

definition validateMnemonic :: "bip39_params \<Rightarrow> jsstring \<Rightarrow> bool" where
  "validateMnemonic P mnemonic_arg = bip39_validateMnemonic P mnemonic_arg"

section \<open>VaultCipher: \<^verbatim>\<open>encryptData\<close> and \<^verbatim>\<open>decryptData\<close>\<close>

subsection \<open>\<^verbatim>\<open>TextEncoder\<close> and \<^verbatim>\<open>TextDecoder\<close>\<close>

text \<open>
  \<^verbatim>\<open>new TextEncoder().encode(s)\<close> first converts the string to scalar values, an
  unpaired surrogate becoming U+FFFD, then writes each scalar value in UTF-8.
\<close>

definition isLeadSurrogate :: "16 word \<Rightarrow> bool" where
  "isLeadSurrogate c = (0xD800 \<le> unat c \<and> unat c \<le> 0xDBFF)"

definition isTrailSurrogate :: "16 word \<Rightarrow> bool" where
  "isTrailSurrogate c = (0xDC00 \<le> unat c \<and> unat c \<le> 0xDFFF)"

fun toScalarValues :: "jsstring \<Rightarrow> nat list" where
  "toScalarValues [] = []"
| "toScalarValues [c] = [if isLeadSurrogate c \<or> isTrailSurrogate c then 0xFFFD else unat c]"
| "toScalarValues (c # d # cs) =
     (if isLeadSurrogate c \<and> isTrailSurrogate d
      then (0x10000 + (unat c - 0xD800) * 0x400 + (unat d - 0xDC00)) # toScalarValues cs
      else (if isLeadSurrogate c \<or> isTrailSurrogate c then 0xFFFD else unat c) #
           toScalarValues (d # cs))"

definition utf8EncodeScalar :: "nat \<Rightarrow> bytes" where
  "utf8EncodeScalar cp =
     (if cp < 0x80 then [of_nat cp]
      else if cp < 0x800 then [of_nat (0xC0 + cp div 64), of_nat (0x80 + cp mod 64)]
      else if cp < 0x10000 then
        [of_nat (0xE0 + cp div 4096), of_nat (0x80 + cp div 64 mod 64), of_nat (0x80 + cp mod 64)]
      else
        [of_nat (0xF0 + cp div 262144), of_nat (0x80 + cp div 4096 mod 64),
         of_nat (0x80 + cp div 64 mod 64), of_nat (0x80 + cp mod 64)])"

definition TextEncoder_encode :: "jsstring \<Rightarrow> bytes" where
  "TextEncoder_encode s = concat (map utf8EncodeScalar (toScalarValues s))"

text \<open>
  \<^verbatim>\<open>new TextDecoder().decode(bytes)\<close> runs the UTF-8 decoder of the Encoding Standard
  with replacement: its state is the code point so far, the bytes seen and needed and
  the bounds of the next byte; an ill-formed sequence yields U+FFFD and the offending
  byte is read again.  The decoder is not fatal and does not ignore the byte order mark:
  a first code point U+FEFF is dropped.
\<close>

function utf8Decode :: "nat \<Rightarrow> nat \<Rightarrow> nat \<Rightarrow> nat \<Rightarrow> nat \<Rightarrow> bytes \<Rightarrow> nat list" where
  "utf8Decode cp seen needed lower upper [] = (if needed \<noteq> 0 then [0xFFFD] else [])"
| "utf8Decode cp seen needed lower upper (b # bs) =
     (let byte = unat b in
      if needed = 0 then
        (if byte \<le> 0x7F then byte # utf8Decode 0 0 0 0x80 0xBF bs
         else if 0xC2 \<le> byte \<and> byte \<le> 0xDF then utf8Decode (byte mod 32) 0 1 0x80 0xBF bs
         else if 0xE0 \<le> byte \<and> byte \<le> 0xEF then
           utf8Decode (byte mod 16) 0 2
             (if byte = 0xE0 then 0xA0 else 0x80) (if byte = 0xED then 0x9F else 0xBF) bs
         else if 0xF0 \<le> byte \<and> byte \<le> 0xF4 then
           utf8Decode (byte mod 8) 0 3
             (if byte = 0xF0 then 0x90 else 0x80) (if byte = 0xF4 then 0x8F else 0xBF) bs
         else 0xFFFD # utf8Decode 0 0 0 0x80 0xBF bs)
      else if byte < lower \<or> upper < byte then 0xFFFD # utf8Decode 0 0 0 0x80 0xBF (b # bs)
      else if seen + 1 \<noteq> needed then
        utf8Decode (cp * 64 + byte mod 64) (seen + 1) needed 0x80 0xBF bs
      else (cp * 64 + byte mod 64) # utf8Decode 0 0 0 0x80 0xBF bs)"
  by pat_completeness auto
termination
  by (relation "measure (\<lambda>(cp, seen, needed, lower, upper, bs).
        2 * length bs + (if needed = 0 then 0 else 1))") auto

declare utf8Decode.simps [simp del]

definition codePointToUTF16 :: "nat \<Rightarrow> jsstring" where
  "codePointToUTF16 cp =
     (if cp < 0x10000 then [of_nat cp]
      else [of_nat (0xD800 + (cp - 0x10000) div 0x400), of_nat (0xDC00 + (cp - 0x10000) mod 0x400)])"

definition TextDecoder_decode :: "bytes \<Rightarrow> jsstring" where
  "TextDecoder_decode bs =
     (let cps = utf8Decode 0 0 0 0x80 0xBF bs;
          cps' = (case cps of [] \<Rightarrow> [] | c # rest \<Rightarrow> if c = 0xFEFF then rest else cps)
      in concat (map codePointToUTF16 cps'))"

subsection \<open>\<^verbatim>\<open>Buffer\<close> and base64\<close>

text \<open>
  \<^verbatim>\<open>Buffer.from(bytes).toString('base64')\<close> is the standard alphabet with padding.
  \<^verbatim>\<open>Buffer.from(str, 'base64')\<close> is lenient: it keeps what precedes the first
  \<^verbatim>\<open>=\<close>, drops every character outside the alphabet (with \<^verbatim>\<open>-\<close> and \<^verbatim>\<open>_\<close> read as
  \<^verbatim>\<open>+\<close> and \<^verbatim>\<open>/\<close>), and decodes groups of four characters, a last group of three
  or two giving two bytes or one.
\<close>

definition b64char :: "nat \<Rightarrow> 16 word" where
  "b64char n =
     of_nat (if n < 26 then 65 + n
             else if n < 52 then 71 + n
             else if n < 62 then n - 4
             else if n = 62 then 43 else 47)"

definition equalsSign :: "16 word" where
  "equalsSign = 61"

fun base64_encode :: "bytes \<Rightarrow> jsstring" where
  "base64_encode [] = []"
| "base64_encode [a] =
     [b64char (unat a div 4), b64char (unat a mod 4 * 16), equalsSign, equalsSign]"
| "base64_encode [a, b] =
     [b64char (unat a div 4), b64char (unat a mod 4 * 16 + unat b div 16),
      b64char (unat b mod 16 * 4), equalsSign]"
| "base64_encode (a # b # c # rest) =
     [b64char (unat a div 4), b64char (unat a mod 4 * 16 + unat b div 16),
      b64char (unat b mod 16 * 4 + unat c div 64), b64char (unat c mod 64)] @ base64_encode rest"

definition b64value :: "16 word \<Rightarrow> nat option" where
  "b64value c =
     (let u = unat c in
      if 65 \<le> u \<and> u \<le> 90 then Some (u - 65)
      else if 97 \<le> u \<and> u \<le> 122 then Some (u - 71)
      else if 48 \<le> u \<and> u \<le> 57 then Some (u + 4)
      else if u = 43 \<or> u = 45 then Some 62
      else if u = 47 \<or> u = 95 then Some 63
      else None)"

text \<open>base64clean and the reverse lookup.\<close>

definition base64clean :: "jsstring \<Rightarrow> nat list" where
  "base64clean str =
     (let vs = List.map_filter b64value (takeWhile (\<lambda>c. c \<noteq> equalsSign) str)
      in if length vs < 2 then [] else vs)"

fun toByteArray :: "nat list \<Rightarrow> bytes" where
  "toByteArray (a # b # c # d # rest) =
     [of_nat (a * 4 + b div 16), of_nat (b mod 16 * 16 + c div 4), of_nat (c mod 4 * 64 + d)] @
     toByteArray rest"
| "toByteArray [a, b, c] = [of_nat (a * 4 + b div 16), of_nat (b mod 16 * 16 + c div 4)]"
| "toByteArray [a, b] = [of_nat (a * 4 + b div 16)]"
| "toByteArray [a] = []"
| "toByteArray [] = []"

definition base64_decode :: "jsstring \<Rightarrow> bytes" where
  "base64_decode str = toByteArray (base64clean str)"

subsection \<open>Web Crypto\<close>

text \<open>
  The primitives are parameters: PBKDF2 with HMAC-SHA-256 deriving a 256-bit key from
  the password bytes, the salt and the iteration count, and the authenticated
  encryption and decryption functions of AES-GCM, which map a key, a nonce and a
  plaintext to a ciphertext and a tag, and back (\<open>None\<close> is the failure of the tag
  check).  \<^verbatim>\<open>subtle.encrypt\<close> returns the ciphertext followed by the tag;
  \<^verbatim>\<open>subtle.decrypt\<close> rejects an input shorter than the 16-byte tag, takes the last 16
  bytes as the tag, and rejects with an OperationError when the decryption fails.
\<close>

record webcrypto =
  pbkdf2 :: "bytes \<Rightarrow> bytes \<Rightarrow> nat \<Rightarrow> bytes"
  gcm_ae :: "bytes \<Rightarrow> bytes \<Rightarrow> bytes \<Rightarrow> bytes \<times> bytes"
  gcm_ad :: "bytes \<Rightarrow> bytes \<Rightarrow> bytes \<Rightarrow> bytes \<Rightarrow> bytes option"

definition subtle_encrypt :: "webcrypto \<Rightarrow> bytes \<Rightarrow> bytes \<Rightarrow> bytes \<Rightarrow> bytes" where
  "subtle_encrypt C key iv plaintext = (let (c, t) = gcm_ae C key iv plaintext in c @ t)"

definition subtle_decrypt :: "webcrypto \<Rightarrow> bytes \<Rightarrow> bytes \<Rightarrow> bytes \<Rightarrow> js_error + bytes" where
  "subtle_decrypt C key iv ciphertext =
     (if length ciphertext < 16 then Inl OperationError
      else (case gcm_ad C key iv (take (length ciphertext - 16) ciphertext)
                   (drop (length ciphertext - 16) ciphertext) of
              None \<Rightarrow> Inl OperationError
            | Some plaintext \<Rightarrow> Inr plaintext))"

text \<open>
  \<^verbatim>\<open>target.set(source, offset)\<close> on a \<^verbatim>\<open>Uint8Array\<close> (a RangeError when the source
  does not fit), and \<^verbatim>\<open>buffer.slice(start, end)\<close> for offsets that are not negative.
\<close>

definition typedArraySet :: "bytes \<Rightarrow> bytes \<Rightarrow> nat \<Rightarrow> js_error + bytes" where
  "typedArraySet target source offset =
     (if length target < offset + length source then Inl RangeError
      else Inr (take offset target @ source @ drop (offset + length source) target))"

definition slice :: "'a list \<Rightarrow> nat \<Rightarrow> nat \<Rightarrow> 'a list" where
  "slice xs start end = take (end - start) (drop start xs)"

subsection \<open>The two methods\<close>

definition encryptData :: "webcrypto \<Rightarrow> jsstring \<Rightarrow> jsstring \<Rightarrow> jsstring promise" where
  "encryptData C data password_arg w =
     (let (salt, w1) = getRandomValues 16 w;
          keyMaterial = TextEncoder_encode password_arg;
          key = pbkdf2 C keyMaterial salt 100000;
          (iv, w2) = getRandomValues 12 w1;
          encrypted = subtle_encrypt C key iv (TextEncoder_encode data);
          combined = replicate (length salt + length iv + length encrypted) 0
      in case typedArraySet combined salt 0 of
           Inl e \<Rightarrow> (Inl e, w2)
         | Inr combined1 \<Rightarrow>
             (case typedArraySet combined1 iv (length salt) of
                Inl e \<Rightarrow> (Inl e, w2)
              | Inr combined2 \<Rightarrow>
                  (case typedArraySet combined2 encrypted (length salt + length iv) of
                     Inl e \<Rightarrow> (Inl e, w2)
                   | Inr combined3 \<Rightarrow> (Inr (base64_encode combined3), w2))))"

definition decryptData :: "webcrypto \<Rightarrow> jsstring \<Rightarrow> jsstring \<Rightarrow> jsstring promise" where
  "decryptData C encryptedBase64 password_arg w =
     (let combined = base64_decode encryptedBase64;
          salt = slice combined 0 16;
          iv = slice combined 16 28;
          data = drop 28 combined;
          keyMaterial = TextEncoder_encode password_arg;
          key = pbkdf2 C keyMaterial salt 100000
      in case subtle_decrypt C key iv data of
           Inl e \<Rightarrow> (Inl e, w)
         | Inr decrypted \<Rightarrow> (Inr (TextDecoder_decode decrypted), w))"

section \<open>WalletManager: the handlers of \<^verbatim>\<open>App\<close>\<close>

text \<open>
  The values that the state variable \<^verbatim>\<open>wallet\<close> can hold.  Its declared type is
  \<^verbatim>\<open>WalletData | null\<close>, but handleUnlock stores whatever \<^verbatim>\<open>JSON.parse\<close> returns,
  unchecked: \<^verbatim>\<open>null\<close>, an object with the four fields of a wallet record, or any
  other value, which is kept here by its JSON text.
\<close>

datatype jsvalue = js_null | js_WalletData WalletData | js_other jsstring

text \<open>
  \<^verbatim>\<open>JSON.stringify\<close> on a wallet record and \<^verbatim>\<open>JSON.parse\<close> (a SyntaxError on a text
  that is not JSON) are parameters.
\<close>

record jsonlib =
  JSON_stringify :: "WalletData \<Rightarrow> jsstring"
  JSON_parse :: "jsstring \<Rightarrow> js_error + jsvalue"

datatype AppState = onboarding | create | import | locked | dashboard

text \<open>
  The state variables of the component that the handlers read or write.  (The state
  variable \<^verbatim>\<open>mnemonic\<close> is \<open>mnemonicState\<close> here.)
\<close>

record App =
  appState :: AppState
  password :: jsstring
  confirmPassword :: jsstring
  mnemonicState :: jsstring
  wallet :: jsvalue
  error :: jsstring

definition storageKey :: jsstring where
  "storageKey = lit ''bitguard_wallet''"

definition senhaIncorreta :: jsstring where
  "senhaIncorreta = lit ''Senha incorreta''"

definition erroAoCriar :: jsstring where
  "erroAoCriar = lit ''Erro ao criar carteira''"

text \<open>
  handleCreateWallet: the two password checks, then the try block; each state setter
  that ran before an exception keeps its effect.
\<close>

definition handleCreateWallet ::
  "bip39_params \<Rightarrow> keylib \<Rightarrow> webcrypto \<Rightarrow> jsonlib \<Rightarrow> App \<times> world \<Rightarrow> App \<times> world" where
  "handleCreateWallet P L C J sw =
     (let (s, w) = sw in
      if password s \<noteq> confirmPassword s then
        (s\<lparr>error := lit ''As senhas n'' @ [0xE3] @ lit ''o coincidem''\<rparr>, w)
      else if length (password s) < 8 then
        (s\<lparr>error := lit ''A senha deve ter pelo menos 8 caracteres''\<rparr>, w)
      else
        (let (newMnemonic, w1) = generateMnemonic P w;
             s1 = s\<lparr>mnemonicState := newMnemonic\<rparr>
         in case createWallet L newMnemonic None w1 of
              (Inl e, w2) \<Rightarrow> (s1\<lparr>error := erroAoCriar\<rparr>, w2)
            | (Inr newWallet, w2) \<Rightarrow>
                (let s2 = s1\<lparr>wallet := js_WalletData newWallet\<rparr>
                 in case encryptData C (JSON_stringify J newWallet) (password s) w2 of
                      (Inl e, w3) \<Rightarrow> (s2\<lparr>error := erroAoCriar\<rparr>, w3)
                    | (Inr encrypted, w3) \<Rightarrow>
                        (s2\<lparr>appState := create\<rparr>,
                         w3\<lparr>localStorage := (localStorage w3)(storageKey \<mapsto> encrypted)\<rparr>))))"

text \<open>
  handleUnlock: nothing happens without a saved wallet (a missing item or the empty
  string); an exception of decryptData or of \<^verbatim>\<open>JSON.parse\<close> only sets the error;
  otherwise the value parsed becomes the wallet, whatever it is.
\<close>

definition handleUnlock :: "webcrypto \<Rightarrow> jsonlib \<Rightarrow> App \<times> world \<Rightarrow> App \<times> world" where
  "handleUnlock C J sw =
     (let (s, w) = sw in
      case localStorage w storageKey of
        None \<Rightarrow> (s, w)
      | Some savedWallet \<Rightarrow>
          if savedWallet = [] then (s, w)
          else
            (case decryptData C savedWallet (password s) w of
               (Inl e, w1) \<Rightarrow> (s\<lparr>error := senhaIncorreta\<rparr>, w1)
             | (Inr decrypted, w1) \<Rightarrow>
                 (case JSON_parse J decrypted of
                    Inl e \<Rightarrow> (s\<lparr>error := senhaIncorreta\<rparr>, w1)
                  | Inr walletData \<Rightarrow>
                      (s\<lparr>wallet := walletData, appState := dashboard, error := []\<rparr>, w1))))"

definition handleLogout :: "App \<Rightarrow> App" where
  "handleLogout s = s\<lparr>wallet := js_null, password := [], appState := locked\<rparr>"

section \<open>Notions used to state the properties\<close>

text \<open>Walking a list of child indices from a node, stopping at the first error.\<close>

fun walk :: "keylib \<Rightarrow> BIP32Interface \<Rightarrow> nat list \<Rightarrow> js_error + BIP32Interface" where
  "walk L node [] = Inr node"
| "walk L node (i # is) = (case derive L node i of Inl e \<Rightarrow> Inl e | Inr c \<Rightarrow> walk L c is)"

definition coinType :: "network \<Rightarrow> nat" where
  "coinType net = (if net = bitcoin then 0 else 1)"

definition networkOf :: "network \<Rightarrow> Network" where
  "networkOf net = (if net = bitcoin then networks_bitcoin else networks_testnet)"

text \<open>
  Well-formed strings (every surrogate is half of a pair) and scalar values (code points
  that are not surrogates).
\<close>

fun wellFormed :: "jsstring \<Rightarrow> bool" where
  "wellFormed [] = True"
| "wellFormed [c] = (\<not> isLeadSurrogate c \<and> \<not> isTrailSurrogate c)"
| "wellFormed (c # d # cs) =
     (if isLeadSurrogate c then isTrailSurrogate d \<and> wellFormed cs
      else \<not> isTrailSurrogate c \<and> wellFormed (d # cs))"

definition isScalar :: "nat \<Rightarrow> bool" where
  "isScalar cp = (cp < 0xD800 \<or> (0xE000 \<le> cp \<and> cp < 0x110000))"

text \<open>The six-bit values of the base64 text of a byte sequence, without the padding.\<close>

fun b64values :: "bytes \<Rightarrow> nat list" where
  "b64values [] = []"
| "b64values [a] = [unat a div 4, unat a mod 4 * 16]"
| "b64values [a, b] = [unat a div 4, unat a mod 4 * 16 + unat b div 16, unat b mod 16 * 4]"
| "b64values (a # b # c # rest) =
     [unat a div 4, unat a mod 4 * 16 + unat b div 16,
      unat b mod 16 * 4 + unat c div 64, unat c mod 64] @ b64values rest"

text \<open>
  The salt and the nonce that a call of encryptData draws in a world, the key it derives,
  and what the model assumes of the AES-GCM primitives: the tag has 16 bytes, and
  decryption under the same key and nonce returns the plaintext.
\<close>

definition drawnSalt :: "world \<Rightarrow> bytes" where
  "drawnSalt w = map (rng w) [0..<16]"

definition drawnNonce :: "world \<Rightarrow> bytes" where
  "drawnNonce w = map (\<lambda>i. rng w (i + 16)) [0..<12]"

definition sealedKey :: "webcrypto \<Rightarrow> jsstring \<Rightarrow> bytes \<Rightarrow> bytes" where
  "sealedKey C password_arg salt = pbkdf2 C (TextEncoder_encode password_arg) salt 100000"

definition gcm_tag16 :: "webcrypto \<Rightarrow> bool" where
  "gcm_tag16 C = (\<forall>key iv p. length (snd (gcm_ae C key iv p)) = 16)"

definition gcm_contract :: "webcrypto \<Rightarrow> bool" where
  "gcm_contract C =
     (\<forall>key iv p. length (snd (gcm_ae C key iv p)) = 16 \<and>
        gcm_ad C key iv (fst (gcm_ae C key iv p)) (snd (gcm_ae C key iv p)) = Some p)"


text \<open>
  What the model assumes of JSON for one wallet record: its text is a well-formed
  string that does not begin with U+FEFF, and parsing the text gives the record back.
\<close>

definition json_roundtrip :: "jsonlib \<Rightarrow> WalletData \<Rightarrow> bool" where
  "json_roundtrip J wd =
     (wellFormed (JSON_stringify J wd) \<and> JSON_stringify J wd \<noteq> [] \<and>
      hd (JSON_stringify J wd) \<noteq> 0xFEFF \<and>
      JSON_parse J (JSON_stringify J wd) = Inr (js_WalletData wd))"


subsection \<open>Test doubles\<close>

text \<open>
  Small stand-ins for the packages and the platform, on which the model runs: a world
  with a counting random source, a key library whose nodes record the indices walked in
  their public key, a word list of the 2048 words of eleven letters over a and b, and a
  hash that sums its input.
\<close>

definition demo_world :: world where
  "demo_world = \<lparr>rng = (\<lambda>i. of_nat (7 * i + 3)), localStorage = Map.empty\<rparr>"

definition demo_keylib :: keylib where
  "demo_keylib = \<lparr>
     mnemonicToSeed = (\<lambda>m. replicate 64 (of_nat (length m))),
     fromSeed = (\<lambda>seed net. if length seed < 16 \<or> 64 < length seed then Inl TypeError else
        Inr \<lparr>node_privateKey = Some (take 32 seed), node_publicKey = [2],
             node_chainCode = drop 32 seed, node_depth = 0, node_index = 0,
             node_parentFingerprint = 0\<rparr>),
     derive = (\<lambda>node i. Inr (node\<lparr>
        node_publicKey := node_publicKey node @ [of_nat (i div 2 ^ 24), of_nat i],
        node_depth := Suc (node_depth node), node_index := i, node_parentFingerprint := 1\<rparr>)),
     p2wpkh = (\<lambda>pk net. Inr (Some
        ((if net = networks_bitcoin then lit ''bc1q'' else lit ''tb1q'') @ toHex pk)))\<rparr>"

definition demo_wordlist :: "jsstring list" where
  "demo_wordlist = map (\<lambda>i. map (\<lambda>b. if b then 98 else 97) (natToBits 11 i)) [0..<2048]"

text \<open>The same key library with a payment whose address is the empty string.\<close>

definition blank_keylib :: keylib where
  "blank_keylib = demo_keylib\<lparr>p2wpkh := (\<lambda>pk net. Inr (Some []))\<rparr>"

definition demo_bip39 :: bip39_params where
  "demo_bip39 = \<lparr>sha256 = (\<lambda>x. replicate 32 (fold (+) x 0)), wordlist = demo_wordlist\<rparr>"

text \<open>
  A toy cipher: the key is one byte summing password, salt and iteration count; the
  ciphertext adds a byte of key and nonce to every plaintext byte; the tag is fifteen
  zero bytes and a sum of key, nonce and plaintext.
\<close>

definition demo_webcrypto :: webcrypto where
  "demo_webcrypto = \<lparr>
     pbkdf2 = (\<lambda>password salt iterations. [fold (+) (password @ salt) (of_nat iterations)]),
     gcm_ae = (\<lambda>key iv p.
        (map (\<lambda>b. b + fold (+) (key @ iv) 0) p, replicate 15 0 @ [fold (+) (key @ iv @ p) 1])),
     gcm_ad = (\<lambda>key iv c t.
        (let p = map (\<lambda>b. b - fold (+) (key @ iv) 0) c
         in if t = replicate 15 0 @ [fold (+) (key @ iv @ p) 1] then Some p else None))\<rparr>"

text \<open>
  A toy JSON: a wallet record is its four fields separated by vertical bars, and the
  text \<^verbatim>\<open>null\<close> is the value \<^verbatim>\<open>null\<close>.
\<close>

definition demo_json :: jsonlib where
  "demo_json = \<lparr>
     JSON_stringify = (\<lambda>wd. mnemonic wd @ [124] @ address wd @ [124] @ publicKey wd @ [124] @
        (if network wd = bitcoin then lit ''bitcoin'' else lit ''testnet'')),
     JSON_parse = (\<lambda>s. case split_on 124 s of
        [m, a, p, n] \<Rightarrow>
          if n = lit ''bitcoin'' then
            Inr (js_WalletData \<lparr>mnemonic = m, address = a, publicKey = p, network = bitcoin\<rparr>)
          else if n = lit ''testnet'' then
            Inr (js_WalletData \<lparr>mnemonic = m, address = a, publicKey = p, network = testnet\<rparr>)
          else Inl SyntaxError
      | [v] \<Rightarrow> if v = lit ''null'' then Inr js_null else Inl SyntaxError
      | _ \<Rightarrow> Inl SyntaxError)\<rparr>"










text \<open>
  A word list that repeats one word, an application on the onboarding screen with a
  password of eight characters typed twice, and the wallet record it creates.
\<close>

definition quiet_bip39 :: bip39_params where
  "quiet_bip39 = \<lparr>sha256 = (\<lambda>x. replicate 32 0), wordlist = replicate 2048 (lit ''w'')\<rparr>"

definition demo_onboarding :: App where
  "demo_onboarding = \<lparr>appState = onboarding, password = lit ''hunter22'',
     confirmPassword = lit ''hunter22'', mnemonicState = [], wallet = js_null, error = []\<rparr>"

definition demo_created :: WalletData where
  "demo_created = \<lparr>mnemonic = lit ''w w w w w w w w w w w w'',
     address = lit ''bc1q0280548000800000000000'',
     publicKey = lit ''0280548000800000000000'', network = bitcoin\<rparr>"

section \<open>Properties of KeyDerivation\<close>

subsection \<open>The derivation path\<close>

lemma split_walletPath:
  "split_on slash (walletPath net) =
     [[109], [56, 52, 39], [(if net = bitcoin then 48 else 49), 39], [48, 39], [48], [48]]"
  by (cases net) (simp_all add: walletPath_def lit_def slash_def apostrophe_def)

lemma derivePath_walletPath:
  "derivePath L root (walletPath net) =
     (if node_parentFingerprint root \<noteq> 0 then Inl TypeError
      else walk L root [84 + HIGHEST_BIT, coinType net + HIGHEST_BIT, 0 + HIGHEST_BIT, 0, 0])"
  unfolding derivePath_def split_walletPath
  by (cases net)
     (simp_all add: Let_def lit_def isPathElement_def isDigit_def apostrophe_def parseInt_def
        hardenedElement_def deriveHardened_def HIGHEST_BIT_def coinType_def split: sum.splits)

lemma demo_child:
  "walletChild demo_keylib m net =
     Inr \<lparr>node_privateKey = Some (replicate 32 (of_nat (length m))),
          node_publicKey = [2, 0x80, 84, 0x80, of_nat (coinType net), 0x80, 0, 0, 0, 0, 0],
          node_chainCode = replicate 32 (of_nat (length m)),
          node_depth = 5, node_index = 0, node_parentFingerprint = 1\<rparr>"
  unfolding walletChild_def derivePath_walletPath
  by (cases net) (simp_all add: demo_keylib_def Let_def HIGHEST_BIT_def coinType_def)

text \<open>
  C3, as amended.  The node \<open>child\<close> of createWallet is the root of the seed walked
  along five child indices: three hardened ones (at or above \<open>HIGHEST_BIT\<close>) for purpose
  84, the coin type (0 for \<open>bitcoin\<close>, 1 for \<open>testnet\<close>) and account 0, then the two
  non-hardened indices 0 and 0 of the external chain and the address index.  A root that
  is not a master node is refused.
\<close>

theorem walletChild_walks_bip84_path:
  "walletChild L m net =
     (case fromSeed L (mnemonicToSeed L m) (networkOf net) of
        Inl e \<Rightarrow> Inl e
      | Inr root \<Rightarrow>
          if node_parentFingerprint root \<noteq> 0 then Inl TypeError
          else walk L root
            [84 + HIGHEST_BIT, coinType net + HIGHEST_BIT, 0 + HIGHEST_BIT, 0, 0])"
  by (simp add: walletChild_def networkOf_def derivePath_walletPath split: sum.splits)

text \<open>
  C3 as stated fails: the path of the mainnet wallet does not start with four hardened
  elements followed by two others (it has three hardened elements and two others).
\<close>

theorem walletPath_not_four_hardened:
  "\<not> (length (takeWhile hardenedElement (tl (split_on slash (walletPath bitcoin)))) = 4 \<and>
      length (dropWhile hardenedElement (tl (split_on slash (walletPath bitcoin)))) = 2)"
  by (simp add: split_walletPath hardenedElement_def apostrophe_def)

subsection \<open>The record returned by createWallet\<close>

text \<open>
  C10.  The record that createWallet returns carries the mnemonic argument unchanged in
  its \<open>mnemonic\<close> field, and its network is the network argument, \<open>bitcoin\<close> when the
  argument is omitted.
\<close>

theorem createWallet_carries_mnemonic:
  "fst (createWallet L m network_arg w) = Inr wd \<Longrightarrow>
     mnemonic wd = m \<and> network wd = (case network_arg of None \<Rightarrow> bitcoin | Some n \<Rightarrow> n)"
  by (auto simp: createWallet_def Let_def split: sum.splits option.splits if_splits)

lemma demo_createWallet:
  "fst (createWallet demo_keylib m network_arg w) =
     (let net = (case network_arg of None \<Rightarrow> bitcoin | Some n \<Rightarrow> n) in
      Inr \<lparr>mnemonic = m,
           address = (if net = bitcoin then lit ''bc1q'' else lit ''tb1q'') @
             toHex [2, 0x80, 84, 0x80, of_nat (coinType net), 0x80, 0, 0, 0, 0, 0],
           publicKey = toHex [2, 0x80, 84, 0x80, of_nat (coinType net), 0x80, 0, 0, 0, 0, 0],
           network = net\<rparr>)"
proof -
  have ne: "lit ''bc1q'' \<noteq> []" "lit ''tb1q'' \<noteq> []"
    by (simp_all add: lit_def)
  show ?thesis
    unfolding createWallet_def Let_def demo_child
    by (simp add: demo_keylib_def ne)
qed

text \<open>Witness of C10: the record made from a phrase of two words, network omitted.\<close>

theorem createWallet_carries_mnemonic_witness:
  "mnemonic \<lparr>mnemonic = lit ''Zoo  ZOO'', address = lit ''bc1q0280548000800000000000'',
             publicKey = lit ''0280548000800000000000'', network = bitcoin\<rparr> = lit ''Zoo  ZOO'' \<and>
   network \<lparr>mnemonic = lit ''Zoo  ZOO'', address = lit ''bc1q0280548000800000000000'',
            publicKey = lit ''0280548000800000000000'', network = bitcoin\<rparr> = bitcoin \<and>
   fst (createWallet demo_keylib (lit ''Zoo  ZOO'') None demo_world) =
     Inr \<lparr>mnemonic = lit ''Zoo  ZOO'', address = lit ''bc1q0280548000800000000000'',
          publicKey = lit ''0280548000800000000000'', network = bitcoin\<rparr>"
proof -
  have r: "fst (createWallet demo_keylib (lit ''Zoo  ZOO'') None demo_world) =
     Inr \<lparr>mnemonic = lit ''Zoo  ZOO'', address = lit ''bc1q0280548000800000000000'',
          publicKey = lit ''0280548000800000000000'', network = bitcoin\<rparr>"
    by (simp add: demo_createWallet coinType_def toHex_def hexDigit_def lit_def)
  from createWallet_carries_mnemonic[OF r] r show ?thesis by simp
qed

text \<open>
  C6.  createWallet neither reads nor changes the world: whatever the state of the
  random source and of the storage at the two calls, the same mnemonic and network give
  the same outcome, hence the same address and public key.
\<close>

theorem createWallet_deterministic:
  "fst (createWallet L m network_arg w1) = fst (createWallet L m network_arg w2) \<and>
   map_sum id address (fst (createWallet L m network_arg w1)) =
     map_sum id address (fst (createWallet L m network_arg w2)) \<and>
   map_sum id publicKey (fst (createWallet L m network_arg w1)) =
     map_sum id publicKey (fst (createWallet L m network_arg w2)) \<and>
   snd (createWallet L m network_arg w1) = w1"
  by (simp add: createWallet_def Let_def split: sum.splits option.splits)

text \<open>
  C2, as amended.  createWallet does not call validateMnemonic.  For every mnemonic
  string, accepted by validateMnemonic or not, and every form of the network argument,
  it returns the record of that mnemonic whenever the root of the seed, the walk along
  the path and the address encoding succeed with an address that is not empty, and it
  returns a record in no other case; when it fails, the error is the one of those calls,
  or \<^verbatim>\<open>Failed to generate address\<close> when the payment has no address or an empty one.
\<close>

theorem createWallet_without_validation:
  assumes "net = (case network_arg of None \<Rightarrow> bitcoin | Some n \<Rightarrow> n)"
  shows "(walletChild L m net = Inr child \<and>
          p2wpkh L (node_publicKey child) (networkOf net) = Inr (Some a) \<and> a \<noteq> [] \<longrightarrow>
            fst (createWallet L m network_arg w) =
              Inr \<lparr>mnemonic = m, address = a, publicKey = toHex (node_publicKey child),
                   network = net\<rparr>) \<and>
         (fst (createWallet L m network_arg w) = Inr wd \<longrightarrow>
            (\<exists>child. walletChild L m net = Inr child \<and>
               p2wpkh L (node_publicKey child) (networkOf net) = Inr (Some (address wd)) \<and>
               address wd \<noteq> [] \<and>
               wd = \<lparr>mnemonic = m, address = address wd, publicKey = toHex (node_publicKey child),
                      network = net\<rparr>)) \<and>
         (fst (createWallet L m network_arg w) = Inl e \<longrightarrow>
            walletChild L m net = Inl e \<or>
            (\<exists>child. walletChild L m net = Inr child \<and>
               (p2wpkh L (node_publicKey child) (networkOf net) = Inl e \<or>
                (p2wpkh L (node_publicKey child) (networkOf net) = Inr None \<or>
                 p2wpkh L (node_publicKey child) (networkOf net) = Inr (Some [])) \<and>
                  e = Error (lit ''Failed to generate address''))))"
  unfolding assms
  by (auto simp: createWallet_def networkOf_def Let_def split: sum.splits option.splits if_splits)

lemma blank_child: "walletChild blank_keylib m net = walletChild demo_keylib m net"
  by (simp add: walletChild_def blank_keylib_def derivePath_walletPath split: sum.splits)

lemma blank_createWallet:
  "fst (createWallet blank_keylib m network_arg w) =
     Inl (Error (lit ''Failed to generate address''))"
  unfolding createWallet_def Let_def blank_child demo_child
  by (simp add: blank_keylib_def)

text \<open>
  Witness of C2: with the network omitted, a string that is no phrase at all gets its
  record; and with a payment whose address is empty, createWallet throws.
\<close>

theorem createWallet_without_validation_witness:
  "bitcoin = (case None of None \<Rightarrow> bitcoin | Some n \<Rightarrow> n) \<and>
   validateMnemonic demo_bip39 (lit ''???'') = False \<and>
   walletChild demo_keylib (lit ''???'') bitcoin =
     Inr \<lparr>node_privateKey = Some (replicate 32 3),
          node_publicKey = [2, 0x80, 84, 0x80, 0, 0x80, 0, 0, 0, 0, 0],
          node_chainCode = replicate 32 3,
          node_depth = 5, node_index = 0, node_parentFingerprint = 1\<rparr> \<and>
   fst (createWallet demo_keylib (lit ''???'') None demo_world) =
     Inr \<lparr>mnemonic = lit ''???'', address = lit ''bc1q0280548000800000000000'',
          publicKey = lit ''0280548000800000000000'', network = bitcoin\<rparr> \<and>
   fst (createWallet blank_keylib (lit ''???'') None demo_world) =
     Inl (Error (lit ''Failed to generate address'')) \<and>
   p2wpkh blank_keylib [2, 0x80, 84, 0x80, 0, 0x80, 0, 0, 0, 0, 0] (networkOf bitcoin) =
     Inr (Some [])"
proof -
  have n: "bitcoin = (case None of None \<Rightarrow> bitcoin | Some n \<Rightarrow> n)" by simp
  have v: "validateMnemonic demo_bip39 (lit ''???'') = False"
    by (simp add: validateMnemonic_def bip39_validateMnemonic_def lit_def space_def)
  have c: "walletChild demo_keylib (lit ''???'') bitcoin =
     Inr \<lparr>node_privateKey = Some (replicate 32 3),
          node_publicKey = [2, 0x80, 84, 0x80, 0, 0x80, 0, 0, 0, 0, 0],
          node_chainCode = replicate 32 3,
          node_depth = 5, node_index = 0, node_parentFingerprint = 1\<rparr>"
    by (simp add: demo_child coinType_def lit_def)
  have a: "p2wpkh demo_keylib [2, 0x80, 84, 0x80, 0, 0x80, 0, 0, 0, 0, 0] (networkOf bitcoin) =
     Inr (Some (lit ''bc1q0280548000800000000000''))"
    by (simp add: demo_keylib_def networkOf_def toHex_def hexDigit_def lit_def)
  have ne: "lit ''bc1q0280548000800000000000'' \<noteq> []" by (simp add: lit_def)
  have t: "toHex [2, 0x80, 84, 0x80, 0, 0x80, 0, 0, 0, 0, 0] = lit ''0280548000800000000000''"
    by (simp add: toHex_def hexDigit_def lit_def)
  have b: "p2wpkh blank_keylib [2, 0x80, 84, 0x80, 0, 0x80, 0, 0, 0, 0, 0] (networkOf bitcoin) =
     Inr (Some [])"
    by (simp add: blank_keylib_def)
  have f: "fst (createWallet blank_keylib (lit ''???'') None demo_world) =
     Inl (Error (lit ''Failed to generate address''))"
    by (rule blank_createWallet)
  from createWallet_without_validation[OF n, where L = demo_keylib and m = "lit ''???''"
      and w = demo_world and a = "lit ''bc1q0280548000800000000000''"
      and child = "\<lparr>node_privateKey = Some (replicate 32 3),
          node_publicKey = [2, 0x80, 84, 0x80, 0, 0x80, 0, 0, 0, 0, 0],
          node_chainCode = replicate 32 3,
          node_depth = 5, node_index = 0, node_parentFingerprint = 1\<rparr>",
      THEN conjunct1]
    c a ne t
  have r: "fst (createWallet demo_keylib (lit ''???'') None demo_world) =
     Inr \<lparr>mnemonic = lit ''???'', address = lit ''bc1q0280548000800000000000'',
          publicKey = lit ''0280548000800000000000'', network = bitcoin\<rparr>"
    by simp
  from n v c r f b show ?thesis by blast
qed

text \<open>
  C2 as stated fails: a string of three words, which validateMnemonic refuses for its
  word count, is not rejected by createWallet, which returns a record for it.
\<close>

theorem createWallet_accepts_invalid_mnemonic:
  "validateMnemonic demo_bip39 (lit ''not a mnemonic'') = False \<and>
   fst (createWallet demo_keylib (lit ''not a mnemonic'') None demo_world) =
     Inr \<lparr>mnemonic = lit ''not a mnemonic'', address = lit ''bc1q0280548000800000000000'',
          publicKey = lit ''0280548000800000000000'', network = bitcoin\<rparr>"
proof -
  have "validateMnemonic demo_bip39 (lit ''not a mnemonic'') = False"
    by (simp add: validateMnemonic_def bip39_validateMnemonic_def lit_def space_def)
  moreover have "fst (createWallet demo_keylib (lit ''not a mnemonic'') None demo_world) =
     Inr \<lparr>mnemonic = lit ''not a mnemonic'', address = lit ''bc1q0280548000800000000000'',
          publicKey = lit ''0280548000800000000000'', network = bitcoin\<rparr>"
    by (simp add: demo_createWallet coinType_def toHex_def hexDigit_def lit_def)
  ultimately show ?thesis by simp
qed

section \<open>Properties of mnemonic phrases\<close>

subsection \<open>Bits, groups and words\<close>

lemma bitsToNat_snoc: "bitsToNat (bs @ [b]) = 2 * bitsToNat bs + (if b then 1 else 0)"
  by (simp add: bitsToNat_def)

lemma length_natToBits [simp]: "length (natToBits k n) = k"
  by (induction k arbitrary: n) auto



lemma bitsToNat_less: "bitsToNat g < 2 ^ length g"
proof (induction g rule: rev_induct)
  case Nil
  then show ?case by (simp add: bitsToNat_def)
next
  case (snoc b g)
  then show ?case by (simp add: bitsToNat_snoc)
qed




lemma chunks_exact:
  "0 < n \<Longrightarrow> length xs = k * n \<Longrightarrow> length (chunks n xs) = k \<and> (\<forall>g\<in>set (chunks n xs). length g = n)"
proof (induction k arbitrary: xs)
  case 0
  then show ?case by (simp add: chunks.simps)
next
  case (Suc k)
  then have ne: "xs \<noteq> []" by auto
  have "length (drop n xs) = k * n" using Suc.prems by simp
  from Suc.IH[OF Suc.prems(1) this] ne Suc.prems show ?case
    by (subst (1 2) chunks.simps) auto
qed


lemma length_bytesToBits: "length (bytesToBits e) = 8 * length e"
  by (induction e) (simp_all add: bytesToBits_def)






subsection \<open>A generated phrase is valid\<close>



subsection \<open>The test word list\<close>







section \<open>Properties of the platform model\<close>

subsection \<open>Base64 decoding inverts encoding\<close>

lemma unat_byte_less: "unat (a :: byte) < 256"
  using unsigned_less[of a] by simp

lemma unat_of_nat16: "x < 65536 \<Longrightarrow> unat (of_nat x :: 16 word) = x"
  by (simp add: unat_of_nat)

lemma unat_b64char:
  assumes "n < 64"
  shows "unat (b64char n) =
     (if n < 26 then 65 + n else if n < 52 then 71 + n else if n < 62 then n - 4
      else if n = 62 then 43 else 47)"
  unfolding b64char_def using assms by (intro unat_of_nat16) auto

lemma b64value_b64char:
  assumes "n < 64"
  shows "b64value (b64char n) = Some n"
proof -
  consider "n < 26" | "26 \<le> n \<and> n < 52" | "52 \<le> n \<and> n < 62" | "n = 62" | "n = 63"
    using assms by linarith
  then show ?thesis
  proof cases
    case 1
    then show ?thesis using unat_b64char[OF assms] by (simp add: b64value_def Let_def)
  next
    case 2
    then show ?thesis using unat_b64char[OF assms] by (simp add: b64value_def Let_def)
  next
    case 3
    then show ?thesis using unat_b64char[OF assms] by (auto simp: b64value_def Let_def)
  next
    case 4
    then show ?thesis using unat_b64char[OF assms] by (simp add: b64value_def Let_def)
  next
    case 5
    then show ?thesis using unat_b64char[OF assms] by (simp add: b64value_def Let_def)
  qed
qed

lemma b64value_equalsSign: "b64value equalsSign = None"
  by (simp add: b64value_def equalsSign_def)

lemma b64char_not_equals: "n < 64 \<Longrightarrow> b64char n \<noteq> equalsSign"
  using b64value_b64char[of n] b64value_equalsSign by auto

lemma div_less_of_less_mult: "(x::nat) < n * q \<Longrightarrow> x div q < n"
  by (simp add: less_mult_imp_div_less)

lemma sextet_bounds:
  assumes "(a::nat) < 256" and "(b::nat) < 256" and "(c::nat) < 256"
  shows "a div 4 < 64" and "a mod 4 * 16 < 64" and "a mod 4 * 16 + b div 16 < 64"
    and "b mod 16 * 4 < 64" and "b mod 16 * 4 + c div 64 < 64" and "c mod 64 < 64"
proof -
  have a4: "a mod 4 < 4" and b16: "b mod 16 < 16" by simp_all
  have bd: "b div 16 < 16" using assms(2) by (intro div_less_of_less_mult) simp
  have cd: "c div 64 < 4" using assms(3) by (intro div_less_of_less_mult) simp
  show "a div 4 < 64" using assms(1) by (intro div_less_of_less_mult) simp
  show "a mod 4 * 16 < 64" using a4 by linarith
  show "a mod 4 * 16 + b div 16 < 64" using a4 bd by linarith
  show "b mod 16 * 4 < 64" using b16 by linarith
  show "b mod 16 * 4 + c div 64 < 64" using b16 cd by linarith
  show "c mod 64 < 64" by simp
qed

lemma b64values_less: "\<forall>v\<in>set (b64values bs). v < 64"
proof (induction bs rule: b64values.induct)
  case 1
  then show ?case by simp
next
  case (2 a)
  show ?case using sextet_bounds[OF unat_byte_less[of a] unat_byte_less[of a] unat_byte_less[of a]]
    by simp
next
  case (3 a b)
  show ?case using sextet_bounds[OF unat_byte_less[of a] unat_byte_less[of b] unat_byte_less[of b]]
    by simp
next
  case (4 a b c rest)
  with sextet_bounds[OF unat_byte_less[of a] unat_byte_less[of b] unat_byte_less[of c]]
  show ?case by simp
qed

lemma mod3_Suc3: "Suc (Suc (Suc n)) mod 3 = n mod 3"
  by presburger

lemma replicate_2: "replicate 2 x = [x, x]"
  by (simp add: numeral_2_eq_2)

lemma base64_encode_values:
  "base64_encode bs =
     map b64char (b64values bs) @ replicate ((3 - length bs mod 3) mod 3) equalsSign"
proof (induction bs rule: b64values.induct)
  case 1
  then show ?case by simp
next
  case (2 a)
  then show ?case by (simp add: replicate_2)
next
  case (3 a b)
  then show ?case by simp
next
  case (4 a b c rest)
  then show ?case by (simp add: mod3_Suc3)
qed

lemma map_filter_b64value: "\<forall>v\<in>set vs. v < 64 \<Longrightarrow> List.map_filter b64value (map b64char vs) = vs"
  by (induction vs) (simp_all add: List.map_filter_simps b64value_b64char)

lemma takeWhile_values:
  "\<forall>v\<in>set vs. v < 64 \<Longrightarrow>
     takeWhile (\<lambda>c. c \<noteq> equalsSign) (map b64char vs @ replicate k equalsSign) = map b64char vs"
proof -
  assume h: "\<forall>v\<in>set vs. v < 64"
  then have a: "\<forall>c\<in>set (map b64char vs). c \<noteq> equalsSign"
    using b64char_not_equals by auto
  show ?thesis
  proof (cases k)
    case 0
    with a show ?thesis by (simp add: takeWhile_eq_all_conv[THEN iffD2])
  next
    case (Suc j)
    with a show ?thesis by (simp add: takeWhile_append2 takeWhile_tail)
  qed
qed

lemma octet1:
  assumes "(b::nat) < 256"
  shows "a div 4 * 4 + (a mod 4 * 16 + b div 16) div 16 = a"
proof -
  have bd: "b div 16 < 16" using assms by (intro div_less_of_less_mult) simp
  then have "(a mod 4 * 16 + b div 16) div 16 = a mod 4" by simp
  then show ?thesis by simp
qed

lemma octet2:
  assumes "(b::nat) < 256" and "(c::nat) < 256"
  shows "(a mod 4 * 16 + b div 16) mod 16 * 16 + (b mod 16 * 4 + c div 64) div 4 = b"
proof -
  have bd: "b div 16 < 16" using assms(1) by (intro div_less_of_less_mult) simp
  have cd: "c div 64 < 4" using assms(2) by (intro div_less_of_less_mult) simp
  have 2: "(a mod 4 * 16 + b div 16) mod 16 = b div 16" using bd by simp
  have 3: "(b mod 16 * 4 + c div 64) div 4 = b mod 16" using cd by simp
  show ?thesis unfolding 2 3 by simp
qed

lemma octet3:
  assumes "(c::nat) < 256"
  shows "(b mod 16 * 4 + c div 64) mod 4 * 64 + c mod 64 = c"
proof -
  have cd: "c div 64 < 4" using assms by (intro div_less_of_less_mult) simp
  have 4: "(b mod 16 * 4 + c div 64) mod 4 = c div 64" using cd by simp
  show ?thesis unfolding 4 by simp
qed

lemma of_nat_unat_byte: "n = unat (a::byte) \<Longrightarrow> of_nat n = a"
  by simp

lemma toByteArray_b64values: "toByteArray (b64values bs) = bs"
proof (induction bs rule: b64values.induct)
  case 1
  then show ?case by simp
next
  case (2 a)
  have "unat a div 4 * 4 + unat a mod 4 * 16 div 16 = unat a"
    using octet1[of 0 "unat a"] by simp
  then have "(of_nat (unat a div 4 * 4 + unat a mod 4 * 16 div 16) :: byte) = a"
    by (rule of_nat_unat_byte)
  then show ?case by (simp only: b64values.simps toByteArray.simps)
next
  case (3 a b)
  have 1: "(of_nat (unat a div 4 * 4 + (unat a mod 4 * 16 + unat b div 16) div 16) :: byte) = a"
    by (rule of_nat_unat_byte[OF octet1[OF unat_byte_less]])
  have "(unat a mod 4 * 16 + unat b div 16) mod 16 * 16 + unat b mod 16 * 4 div 4 = unat b"
    using octet2[OF unat_byte_less[of b], of 0 "unat a"] by simp
  then have 2: "(of_nat ((unat a mod 4 * 16 + unat b div 16) mod 16 * 16 + unat b mod 16 * 4 div 4) :: byte) = b"
    by (rule of_nat_unat_byte)
  show ?case by (simp only: b64values.simps toByteArray.simps 1 2)
next
  case (4 a b c rest)
  have 1: "(of_nat (unat a div 4 * 4 + (unat a mod 4 * 16 + unat b div 16) div 16) :: byte) = a"
    by (rule of_nat_unat_byte[OF octet1[OF unat_byte_less]])
  have 2: "(of_nat ((unat a mod 4 * 16 + unat b div 16) mod 16 * 16 +
            (unat b mod 16 * 4 + unat c div 64) div 4) :: byte) = b"
    by (rule of_nat_unat_byte[OF octet2[OF unat_byte_less unat_byte_less]])
  have 3: "(of_nat ((unat b mod 16 * 4 + unat c div 64) mod 4 * 64 + unat c mod 64) :: byte) = c"
    by (rule of_nat_unat_byte[OF octet3[OF unat_byte_less]])
  show ?case using 4 by (simp only: b64values.simps toByteArray.simps append.simps 1 2 3)
qed

lemma length_b64values: "bs \<noteq> [] \<Longrightarrow> 2 \<le> length (b64values bs)"
  by (induction bs rule: b64values.induct) simp_all

lemma takeWhile_base64_encode: "takeWhile (\<lambda>c. c \<noteq> equalsSign) (base64_encode bs) = map b64char (b64values bs)"
proof -
  have v: "\<forall>v\<in>set (b64values bs). v < 64" by (rule b64values_less)
  show ?thesis
    by (simp only: base64_encode_values takeWhile_values[OF v])
qed

lemma values_of_base64_encode: "List.map_filter b64value (takeWhile (\<lambda>c. c \<noteq> equalsSign) (base64_encode bs)) =
        b64values bs"
  by (simp only: takeWhile_base64_encode map_filter_b64value[OF b64values_less])

lemma base64clean_encode_nil: "base64clean (base64_encode []) = b64values []"
  by (simp add: base64clean_def List.map_filter_simps)

lemma base64clean_encode: "base64clean (base64_encode bs) = b64values bs"
proof (cases "bs = []")
  case True
  then show ?thesis by (simp only: base64clean_encode_nil)
next
  case False
  from length_b64values[OF this] have "\<not> length (b64values bs) < 2" by simp
  then show ?thesis by (simp only: base64clean_def values_of_base64_encode Let_def if_False)
qed

lemma base64_roundtrip: "base64_decode (base64_encode bs) = bs"
  by (simp only: base64_decode_def base64clean_encode toByteArray_b64values)

lemma base64_encode_inj: "base64_encode xs = base64_encode ys \<Longrightarrow> xs = ys"
  by (metis base64_roundtrip)

subsection \<open>UTF-8 decoding inverts encoding on well-formed strings\<close>

lemma decode1:
  assumes "unat b1 = cp" and "cp < 0x80"
  shows "utf8Decode 0 0 0 0x80 0xBF (b1 # rest) = cp # utf8Decode 0 0 0 0x80 0xBF rest"
  apply (subst utf8Decode.simps(2))
  apply (simp only: Let_def assms(1))
  using assms(2) apply simp
  done

lemma mod_offset: "(r::nat) < m \<Longrightarrow> (k * m + r) mod m = r"
  by simp

lemma decode_lead2:
  assumes "unat b1 = 0xC0 + q" and "2 \<le> q" and "q < 32"
  shows "utf8Decode 0 0 0 0x80 0xBF (b1 # rest) = utf8Decode q 0 1 0x80 0xBF rest"
proof -
  have m1: "(192 + q) mod 32 = q" using mod_offset[OF assms(3), of 6] by simp
  show ?thesis
    apply (subst utf8Decode.simps(2))
    apply (simp only: Let_def assms(1) m1)
    using assms(2,3) apply simp
    done
qed

lemma decode_lead3:
  assumes "unat b1 = 0xE0 + q" and "q < 16"
  shows "utf8Decode 0 0 0 0x80 0xBF (b1 # rest) =
           utf8Decode q 0 2 (if q = 0 then 0xA0 else 0x80) (if q = 13 then 0x9F else 0xBF) rest"
proof -
  have m1: "(224 + q) mod 16 = q" using mod_offset[OF assms(2), of 14] by simp
  show ?thesis
    apply (subst utf8Decode.simps(2))
    apply (simp only: Let_def assms(1) m1)
    using assms(2) apply simp
    done
qed

lemma decode_lead4:
  assumes "unat b1 = 0xF0 + q" and "q < 5"
  shows "utf8Decode 0 0 0 0x80 0xBF (b1 # rest) =
           utf8Decode q 0 3 (if q = 0 then 0x90 else 0x80) (if q = 4 then 0x8F else 0xBF) rest"
proof -
  have "q < 8" using assms(2) by simp
  from mod_offset[OF this, of 30] have m1: "(240 + q) mod 8 = q" by simp
  show ?thesis
    apply (subst utf8Decode.simps(2))
    apply (simp only: Let_def assms(1) m1)
    using assms(2) apply simp
    done
qed

lemma decode_cont:
  assumes "unat b = 0x80 + r" and "r < 64" and "lower \<le> 0x80 + r" and "0x80 + r \<le> upper"
    and "needed \<noteq> 0" and "seen + 1 \<noteq> needed"
  shows "utf8Decode cp seen needed lower upper (b # rest) =
           utf8Decode (cp * 64 + r) (seen + 1) needed 0x80 0xBF rest"
proof -
  have m: "(128 + r) mod 64 = r" using mod_offset[OF assms(2), of 2] by simp
  show ?thesis
    apply (subst utf8Decode.simps(2))
    apply (simp only: Let_def assms(1) m)
    using assms(2-6) apply simp
    done
qed

lemma decode_last:
  assumes "unat b = 0x80 + r" and "r < 64" and "lower \<le> 0x80 + r" and "0x80 + r \<le> upper"
    and "needed \<noteq> 0" and "seen + 1 = needed"
  shows "utf8Decode cp seen needed lower upper (b # rest) =
           (cp * 64 + r) # utf8Decode 0 0 0 0x80 0xBF rest"
proof -
  have m: "(128 + r) mod 64 = r" using mod_offset[OF assms(2), of 2] by simp
  show ?thesis
    apply (subst utf8Decode.simps(2))
    apply (simp only: Let_def assms(1) m)
    using assms(2-6) apply simp
    done
qed




lemma unat_of_nat8: "x < 256 \<Longrightarrow> unat (of_nat x :: byte) = x"
  by (simp add: unat_of_nat)

lemma digits64:
  fixes cp :: nat
  shows "cp = cp div 64 * 64 + cp mod 64"
    and "cp div 64 = cp div 4096 * 64 + cp div 64 mod 64"
    and "cp div 4096 = cp div 262144 * 64 + cp div 4096 mod 64"
proof -
  show "cp = cp div 64 * 64 + cp mod 64" by simp
  have "cp div 4096 = cp div 64 div 64" by (simp add: div_mult2_eq[symmetric])
  then show "cp div 64 = cp div 4096 * 64 + cp div 64 mod 64" by simp
  have "cp div 262144 = cp div 4096 div 64" by (simp add: div_mult2_eq[symmetric])
  then show "cp div 4096 = cp div 262144 * 64 + cp div 4096 mod 64" by simp
qed

lemma decode_encoded2:
  assumes "0x80 \<le> cp" and "cp < 0x800"
  shows "utf8Decode 0 0 0 0x80 0xBF (utf8EncodeScalar cp @ rest) = cp # utf8Decode 0 0 0 0x80 0xBF rest"
proof -
  define q where "q = cp div 64"
  define r where "r = cp mod 64"
  have cp: "cp = q * 64 + r" and r: "r < 64" by (simp_all add: q_def r_def)
  have q: "2 \<le> q" "q < 32" using assms cp r by linarith+
  have enc: "utf8EncodeScalar cp = [of_nat (0xC0 + q), of_nat (0x80 + r)]"
    using assms by (simp add: utf8EncodeScalar_def q_def r_def)
  have u1: "unat (of_nat (0xC0 + q) :: byte) = 0xC0 + q" using q by (intro unat_of_nat8) simp
  have u2: "unat (of_nat (0x80 + r) :: byte) = 0x80 + r" using r by (intro unat_of_nat8) simp
  have "utf8Decode 0 0 0 0x80 0xBF (utf8EncodeScalar cp @ rest) =
        utf8Decode q 0 1 0x80 0xBF (of_nat (0x80 + r) # rest)"
    unfolding enc using decode_lead2[OF u1 q] by simp
  also have "\<dots> = (q * 64 + r) # utf8Decode 0 0 0 0x80 0xBF rest"
    using r by (intro decode_last[OF u2 r]) simp_all
  finally show ?thesis using cp by simp
qed


lemma decode_encoded3:
  assumes "0x800 \<le> cp" and "cp < 0x10000" and "isScalar cp"
  shows "utf8Decode 0 0 0 0x80 0xBF (utf8EncodeScalar cp @ rest) = cp # utf8Decode 0 0 0 0x80 0xBF rest"
proof -
  define q where "q = cp div 4096"
  define r1 where "r1 = cp div 64 mod 64"
  define r2 where "r2 = cp mod 64"
  define d where "d = cp div 64"
  have cp: "cp = d * 64 + r2" and d: "d = q * 64 + r1"
    using digits64(1,2)[of cp] by (simp_all add: q_def r1_def r2_def d_def)
  have r: "r1 < 64" "r2 < 64" by (simp_all add: r1_def r2_def)
  have q: "q < 16" using assms(2) cp d r by linarith
  have lo: "q = 0 \<Longrightarrow> 32 \<le> r1" using assms(1) cp d r by linarith
  have sc: "cp < 0xD800 \<or> 0xE000 \<le> cp" using assms(3) by (auto simp: isScalar_def)
  have hi: "q = 13 \<Longrightarrow> r1 < 32" using sc cp d r by linarith
  have enc: "utf8EncodeScalar cp = [of_nat (0xE0 + q), of_nat (0x80 + r1), of_nat (0x80 + r2)]"
    using assms by (simp add: utf8EncodeScalar_def q_def r1_def r2_def)
  have u1: "unat (of_nat (0xE0 + q) :: byte) = 0xE0 + q" using q by (intro unat_of_nat8) simp
  have u2: "unat (of_nat (0x80 + r1) :: byte) = 0x80 + r1" using r by (intro unat_of_nat8) simp
  have u3: "unat (of_nat (0x80 + r2) :: byte) = 0x80 + r2" using r by (intro unat_of_nat8) simp
  have "utf8Decode 0 0 0 0x80 0xBF (utf8EncodeScalar cp @ rest) =
        utf8Decode q 0 2 (if q = 0 then 0xA0 else 0x80) (if q = 13 then 0x9F else 0xBF)
          (of_nat (0x80 + r1) # of_nat (0x80 + r2) # rest)"
    unfolding enc using decode_lead3[OF u1 q] by simp
  also have "\<dots> = utf8Decode (q * 64 + r1) (0 + 1) 2 0x80 0xBF (of_nat (0x80 + r2) # rest)"
    using r lo hi by (intro decode_cont[OF u2 r(1)]) auto
  also have "\<dots> = ((q * 64 + r1) * 64 + r2) # utf8Decode 0 0 0 0x80 0xBF rest"
    using r by (intro decode_last[OF u3 r(2)]) simp_all
  finally show ?thesis using cp d by simp
qed

lemma decode_encoded4:
  assumes "0x10000 \<le> cp" and "cp < 0x110000"
  shows "utf8Decode 0 0 0 0x80 0xBF (utf8EncodeScalar cp @ rest) = cp # utf8Decode 0 0 0 0x80 0xBF rest"
proof -
  define q where "q = cp div 262144"
  define r1 where "r1 = cp div 4096 mod 64"
  define r2 where "r2 = cp div 64 mod 64"
  define r3 where "r3 = cp mod 64"
  define d where "d = cp div 64"
  define e where "e = cp div 4096"
  have cp: "cp = d * 64 + r3" and d: "d = e * 64 + r2" and e: "e = q * 64 + r1"
    using digits64[of cp] by (simp_all add: q_def r1_def r2_def r3_def d_def e_def)
  have r: "r1 < 64" "r2 < 64" "r3 < 64" by (simp_all add: r1_def r2_def r3_def)
  have q: "q < 5" using assms(2) cp d e r by linarith
  have lo: "q = 0 \<Longrightarrow> 16 \<le> r1" using assms(1) cp d e r by linarith
  have hi: "q = 4 \<Longrightarrow> r1 < 16" using assms(2) cp d e r by linarith
  have enc: "utf8EncodeScalar cp =
      [of_nat (0xF0 + q), of_nat (0x80 + r1), of_nat (0x80 + r2), of_nat (0x80 + r3)]"
    using assms by (simp add: utf8EncodeScalar_def q_def r1_def r2_def r3_def)
  have u1: "unat (of_nat (0xF0 + q) :: byte) = 0xF0 + q" using q by (intro unat_of_nat8) simp
  have u2: "unat (of_nat (0x80 + r1) :: byte) = 0x80 + r1" using r by (intro unat_of_nat8) simp
  have u3: "unat (of_nat (0x80 + r2) :: byte) = 0x80 + r2" using r by (intro unat_of_nat8) simp
  have u4: "unat (of_nat (0x80 + r3) :: byte) = 0x80 + r3" using r by (intro unat_of_nat8) simp
  have "utf8Decode 0 0 0 0x80 0xBF (utf8EncodeScalar cp @ rest) =
        utf8Decode q 0 3 (if q = 0 then 0x90 else 0x80) (if q = 4 then 0x8F else 0xBF)
          (of_nat (0x80 + r1) # of_nat (0x80 + r2) # of_nat (0x80 + r3) # rest)"
    unfolding enc using decode_lead4[OF u1 q] by simp
  also have "\<dots> = utf8Decode (q * 64 + r1) (0 + 1) 3 0x80 0xBF
          (of_nat (0x80 + r2) # of_nat (0x80 + r3) # rest)"
    using r lo hi by (intro decode_cont[OF u2 r(1)]) auto
  also have "\<dots> = utf8Decode ((q * 64 + r1) * 64 + r2) (0 + 1 + 1) 3 0x80 0xBF
          (of_nat (0x80 + r3) # rest)"
    using r by (intro decode_cont[OF u3 r(2)]) simp_all
  also have "\<dots> = (((q * 64 + r1) * 64 + r2) * 64 + r3) # utf8Decode 0 0 0 0x80 0xBF rest"
    using r by (intro decode_last[OF u4 r(3)]) simp_all
  finally show ?thesis using cp d e by simp
qed

lemma decode_encoded:
  assumes "isScalar cp"
  shows "utf8Decode 0 0 0 0x80 0xBF (utf8EncodeScalar cp @ rest) = cp # utf8Decode 0 0 0 0x80 0xBF rest"
proof -
  have "cp < 0x110000" using assms by (auto simp: isScalar_def)
  then consider "cp < 0x80" | "0x80 \<le> cp \<and> cp < 0x800" | "0x800 \<le> cp \<and> cp < 0x10000"
    | "0x10000 \<le> cp \<and> cp < 0x110000"
    by linarith
  then show ?thesis
  proof cases
    case 1
    then have "unat (of_nat cp :: byte) = cp" by (intro unat_of_nat8) simp
    from decode1[OF this 1] 1 show ?thesis by (simp add: utf8EncodeScalar_def)
  next
    case 2
    then show ?thesis by (intro decode_encoded2) simp_all
  next
    case 3
    then show ?thesis using assms by (intro decode_encoded3) simp_all
  next
    case 4
    then show ?thesis by (intro decode_encoded4) simp_all
  qed
qed

lemma decode_encoded_all:
  "\<forall>cp\<in>set cps. isScalar cp \<Longrightarrow>
     utf8Decode 0 0 0 0x80 0xBF (concat (map utf8EncodeScalar cps)) = cps"
  by (induction cps) (simp_all add: decode_encoded utf8Decode.simps(1))

lemma unat_unit_less: "unat (c :: 16 word) < 65536"
  using unsigned_less[of c] by simp

lemma of_nat_unat_unit: "n = unat (c :: 16 word) \<Longrightarrow> of_nat n = c"
  by simp

lemma pair_scalar:
  assumes "isLeadSurrogate c" and "isTrailSurrogate d"
  shows "isScalar (0x10000 + (unat c - 0xD800) * 0x400 + (unat d - 0xDC00))"
proof -
  define hi where "hi = unat c - 0xD800"
  define lo where "lo = unat d - 0xDC00"
  have "unat c \<le> 0xDBFF" "unat d \<le> 0xDFFF"
    using assms by (simp_all add: isLeadSurrogate_def isTrailSurrogate_def)
  then have "hi \<le> 0x3FF" "lo \<le> 0x3FF"
    unfolding hi_def lo_def by linarith+
  then have "0xE000 \<le> 0x10000 + hi * 0x400 + lo \<and> 0x10000 + hi * 0x400 + lo < 0x110000"
    by linarith
  then show ?thesis by (simp add: isScalar_def hi_def lo_def)
qed

lemma unit_scalar:
  "isScalar (if isLeadSurrogate c \<or> isTrailSurrogate c then 0xFFFD else unat c)"
  using unat_unit_less[of c]
  by (auto simp: isScalar_def isLeadSurrogate_def isTrailSurrogate_def)

lemma toScalarValues_scalar: "\<forall>cp\<in>set (toScalarValues s). isScalar cp"
proof (induction s rule: toScalarValues.induct)
  case 1
  then show ?case by simp
next
  case (2 c)
  show ?case using unit_scalar[of c] by simp
next
  case (3 c d cs)
  show ?case
  proof (cases "isLeadSurrogate c \<and> isTrailSurrogate d")
    case True
    with 3 pair_scalar[of c d] show ?thesis by simp
  next
    case False
    with 3 unit_scalar[of c] show ?thesis by auto
  qed
qed

lemma codePointToUTF16_unit:
  "\<not> isLeadSurrogate c \<Longrightarrow> \<not> isTrailSurrogate c \<Longrightarrow> codePointToUTF16 (unat c) = [c]"
  using unat_unit_less[of c] by (simp add: codePointToUTF16_def)

lemma codePointToUTF16_pair:
  assumes "isLeadSurrogate c" and "isTrailSurrogate d"
  shows "codePointToUTF16 (0x10000 + (unat c - 0xD800) * 0x400 + (unat d - 0xDC00)) = [c, d]"
proof -
  define hi where "hi = unat c - 0xD800"
  define lo where "lo = unat d - 0xDC00"
  have "0xD800 \<le> unat c" "0xDC00 \<le> unat d" "unat d \<le> 0xDFFF"
    using assms by (simp_all add: isLeadSurrogate_def isTrailSurrogate_def)
  then have c: "0xD800 + hi = unat c" and d: "0xDC00 + lo = unat d" and lo: "lo < 0x400"
    unfolding hi_def lo_def by linarith+
  have 1: "(hi * 0x400 + lo) div 0x400 = hi" and 2: "(hi * 0x400 + lo) mod 0x400 = lo"
    using lo by simp_all
  have "codePointToUTF16 (0x10000 + hi * 0x400 + lo) =
          [of_nat (0xD800 + (hi * 0x400 + lo) div 0x400), of_nat (0xDC00 + (hi * 0x400 + lo) mod 0x400)]"
    by (simp add: codePointToUTF16_def)
  also have "\<dots> = [c, d]"
    unfolding 1 2 using of_nat_unat_unit[OF c] of_nat_unat_unit[OF d] by simp
  finally show ?thesis by (simp add: hi_def lo_def)
qed

lemma utf16_roundtrip: "wellFormed s \<Longrightarrow> concat (map codePointToUTF16 (toScalarValues s)) = s"
proof (induction s rule: toScalarValues.induct)
  case 1
  then show ?case by simp
next
  case (2 c)
  then show ?case by (simp add: codePointToUTF16_unit)
next
  case (3 c d cs)
  show ?case
  proof (cases "isLeadSurrogate c")
    case True
    with 3 show ?thesis by (simp add: codePointToUTF16_pair)
  next
    case False
    with 3 show ?thesis by (simp add: codePointToUTF16_unit)
  qed
qed

lemma unat_not_bom: "c \<noteq> (0xFEFF :: 16 word) \<Longrightarrow> unat c \<noteq> 0xFEFF"
proof
  assume ne: "c \<noteq> 0xFEFF" and "unat c = 0xFEFF"
  then have "of_nat 0xFEFF = c" by (intro of_nat_unat_unit) simp
  then have "c = 0xFEFF" by simp
  with ne show False by simp
qed

lemma first_scalar_not_bom:
  assumes "c \<noteq> 0xFEFF"
  shows "(if isLeadSurrogate c \<or> isTrailSurrogate c then 0xFFFD else unat c) \<noteq> 0xFEFF"
  using unat_not_bom[OF assms] by simp

lemma toScalarValues_no_bom:
  assumes "s = [] \<or> hd s \<noteq> 0xFEFF"
  shows "(case toScalarValues s of [] \<Rightarrow> [] | c # rest \<Rightarrow> if c = 0xFEFF then rest else toScalarValues s) =
           toScalarValues s"
proof (cases s rule: toScalarValues.cases)
  case 1
  then show ?thesis by simp
next
  case (2 c)
  with assms first_scalar_not_bom[of c] show ?thesis by simp
next
  case (3 c d cs)
  with assms first_scalar_not_bom[of c] show ?thesis by simp
qed

lemma text_roundtrip:
  assumes "wellFormed s" and "s = [] \<or> hd s \<noteq> 0xFEFF"
  shows "TextDecoder_decode (TextEncoder_encode s) = s"
  unfolding TextDecoder_decode_def TextEncoder_encode_def Let_def
    decode_encoded_all[OF toScalarValues_scalar] toScalarValues_no_bom[OF assms(2)]
  by (rule utf16_roundtrip[OF assms(1)])

section \<open>Properties of VaultCipher\<close>

lemma length_drawn [simp]: "length (drawnSalt w) = 16" "length (drawnNonce w) = 12"
  by (simp_all add: drawnSalt_def drawnNonce_def)

lemma typedArraySet_three:
  assumes "length t = length a + length b + length c"
  shows "typedArraySet t a 0 = Inr (a @ drop (length a) t)"
    and "typedArraySet (a @ drop (length a) t) b (length a) = Inr (a @ b @ drop (length a + length b) t)"
    and "typedArraySet (a @ b @ drop (length a + length b) t) c (length a + length b) = Inr (a @ b @ c)"
  using assms by (simp_all add: typedArraySet_def add.commute)

lemma encryptData_envelope:
  "encryptData C data pw w =
     (Inr (base64_encode (drawnSalt w @ drawnNonce w @
        subtle_encrypt C (sealedKey C pw (drawnSalt w)) (drawnNonce w) (TextEncoder_encode data))),
      w\<lparr>rng := (\<lambda>i. rng w (i + 28))\<rparr>)"
proof -
  let ?enc = "subtle_encrypt C (sealedKey C pw (drawnSalt w)) (drawnNonce w) (TextEncoder_encode data)"
  let ?t = "replicate (length (drawnSalt w) + length (drawnNonce w) + length ?enc) (0::byte)"
  have len: "length ?t = length (drawnSalt w) + length (drawnNonce w) + length ?enc" by simp
  note s = typedArraySet_three[OF len]
  have g1: "getRandomValues 16 w = (drawnSalt w, w\<lparr>rng := (\<lambda>i. rng w (i + 16))\<rparr>)"
    by (simp add: getRandomValues_def drawnSalt_def)
  have g2: "getRandomValues 12 (w\<lparr>rng := (\<lambda>i. rng w (i + 16))\<rparr>) =
      (drawnNonce w, w\<lparr>rng := (\<lambda>i. rng w (i + 28))\<rparr>)"
    by (simp add: getRandomValues_def drawnNonce_def add.commute add.left_commute)
  show ?thesis
    unfolding encryptData_def g1 g2 Let_def prod.case sealedKey_def[symmetric]
    using s by (simp del: length_drawn replicate_add)
qed

lemma slices_of_envelope:
  assumes "length s = 16" and "length n = 12"
  shows "slice (s @ n @ c) 0 16 = s" and "slice (s @ n @ c) 16 28 = n" and "drop 28 (s @ n @ c) = c"
  using assms by (simp_all add: slice_def)

lemma subtle_roundtrip:
  assumes "gcm_contract C"
  shows "subtle_decrypt C key iv (subtle_encrypt C key iv p) = Inr p"
proof -
  obtain c t where ct: "gcm_ae C key iv p = (c, t)" by (cases "gcm_ae C key iv p")
  with assms have t: "length t = 16" and d: "gcm_ad C key iv c t = Some p"
    unfolding gcm_contract_def by (metis fst_conv snd_conv)+
  show ?thesis
    by (simp add: subtle_decrypt_def subtle_encrypt_def ct t d)
qed

lemma decryptData_of_parts:
  assumes "base64_decode env = s @ n @ c" and "length s = 16" and "length n = 12"
  shows "decryptData C env pw w =
     (case subtle_decrypt C (sealedKey C pw s) n c of
        Inl e \<Rightarrow> (Inl e, w)
      | Inr p \<Rightarrow> (Inr (TextDecoder_decode p), w))"
  unfolding decryptData_def assms(1) Let_def slices_of_envelope[OF assms(2,3)] sealedKey_def
  by simp

lemma open_seal:
  assumes "gcm_contract C"
  shows "fst (decryptData C (projr (fst (encryptData C data pw w))) pw w') =
           Inr (TextDecoder_decode (TextEncoder_encode data))"
proof -
  let ?env = "base64_encode (drawnSalt w @ drawnNonce w @
        subtle_encrypt C (sealedKey C pw (drawnSalt w)) (drawnNonce w) (TextEncoder_encode data))"
  have e: "projr (fst (encryptData C data pw w)) = ?env"
    by (simp add: encryptData_envelope)
  have d: "base64_decode ?env = drawnSalt w @ drawnNonce w @
        subtle_encrypt C (sealedKey C pw (drawnSalt w)) (drawnNonce w) (TextEncoder_encode data)"
    by (rule base64_roundtrip)
  show ?thesis
    unfolding e decryptData_of_parts[OF d length_drawn] subtle_roundtrip[OF assms]
    by simp
qed

subsection \<open>The toy cipher\<close>

lemma demo_gcm_contract: "gcm_contract demo_webcrypto"
  by (simp add: gcm_contract_def demo_webcrypto_def Let_def comp_def)

lemma demo_gcm_tag16: "gcm_tag16 demo_webcrypto"
  by (simp add: gcm_tag16_def demo_webcrypto_def)

lemma drawn_demo:
  "drawnSalt demo_world = [3, 10, 17, 24, 31, 38, 45, 52, 59, 66, 73, 80, 87, 94, 101, 108]"
  "drawnNonce demo_world = [115, 122, 129, 136, 143, 150, 157, 164, 171, 178, 185, 192]"
  by (simp_all add: drawnSalt_def drawnNonce_def demo_world_def upt_rec)

lemma replicate_15: "replicate 15 x = [x, x, x, x, x, x, x, x, x, x, x, x, x, x, x]"
  by (simp add: numeral_eq_Suc)

lemmas demo_eval = sealedKey_def subtle_encrypt_def subtle_decrypt_def demo_webcrypto_def
  TextEncoder_encode_def TextDecoder_decode_def isLeadSurrogate_def isTrailSurrogate_def
  utf8EncodeScalar_def codePointToUTF16_def utf8Decode.simps lit_def b64char_def b64value_def
  equalsSign_def replicate_15 base64_decode_def base64clean_def List.map_filter_simps
  slice_def Let_def

subsection \<open>The envelope\<close>

text \<open>
  C4.  With an AES-GCM whose tag has 16 bytes, the envelope that encryptData returns is
  the base64 text of the concatenation of the 16-byte salt, the 12-byte nonce, the
  ciphertext and the 16-byte tag, in this order; salt and nonce are the 28 bytes drawn
  from the random source, ciphertext and tag the output of AES-GCM under the key derived
  from the password and the salt.
\<close>

theorem encryptData_envelope_format:
  assumes "gcm_tag16 C"
  shows "fst (encryptData C data pw w) =
           Inr (base64_encode (drawnSalt w @ drawnNonce w @
             fst (gcm_ae C (sealedKey C pw (drawnSalt w)) (drawnNonce w) (TextEncoder_encode data)) @
             snd (gcm_ae C (sealedKey C pw (drawnSalt w)) (drawnNonce w) (TextEncoder_encode data)))) \<and>
         length (drawnSalt w) = 16 \<and> length (drawnNonce w) = 12 \<and>
         length (snd (gcm_ae C (sealedKey C pw (drawnSalt w)) (drawnNonce w) (TextEncoder_encode data))) = 16"
  using assms
  by (simp add: encryptData_envelope subtle_encrypt_def gcm_tag16_def split: prod.splits)

text \<open>Witness of C4: the envelope of the text \<^verbatim>\<open>{}\<close> under the toy cipher.\<close>

theorem encryptData_envelope_format_witness:
  "gcm_tag16 demo_webcrypto \<and>
   fst (encryptData demo_webcrypto (lit ''{}'') (lit ''hunter2'') demo_world) =
     Inr (lit ''AwoRGB8mLTQ7QklQV15lbHN6gYiPlp2kq7K5wI2PAAAAAAAAAAAAAAAAAAAACw=='') \<and>
   lit ''AwoRGB8mLTQ7QklQV15lbHN6gYiPlp2kq7K5wI2PAAAAAAAAAAAAAAAAAAAACw=='' =
     base64_encode ([3, 10, 17, 24, 31, 38, 45, 52, 59, 66, 73, 80, 87, 94, 101, 108] @
       [115, 122, 129, 136, 143, 150, 157, 164, 171, 178, 185, 192] @
       [141, 143] @ [0, 0, 0, 0, 0, 0, 0, 0, 0, 0, 0, 0, 0, 0, 0, 11])"
proof -
  have g: "gcm_ae demo_webcrypto (sealedKey demo_webcrypto (lit ''hunter2'')
        [3, 10, 17, 24, 31, 38, 45, 52, 59, 66, 73, 80, 87, 94, 101, 108])
      [115, 122, 129, 136, 143, 150, 157, 164, 171, 178, 185, 192]
      (TextEncoder_encode (lit ''{}'')) =
      ([141, 143], [0, 0, 0, 0, 0, 0, 0, 0, 0, 0, 0, 0, 0, 0, 0, 11])"
    by (simp add: demo_eval)
  have b: "lit ''AwoRGB8mLTQ7QklQV15lbHN6gYiPlp2kq7K5wI2PAAAAAAAAAAAAAAAAAAAACw=='' =
     base64_encode ([3, 10, 17, 24, 31, 38, 45, 52, 59, 66, 73, 80, 87, 94, 101, 108] @
       [115, 122, 129, 136, 143, 150, 157, 164, 171, 178, 185, 192] @
       [141, 143] @ [0, 0, 0, 0, 0, 0, 0, 0, 0, 0, 0, 0, 0, 0, 0, 11])"
    by (simp add: lit_def b64char_def equalsSign_def)
  note f = encryptData_envelope_format[OF demo_gcm_tag16, of "lit ''{}''" "lit ''hunter2''"
      demo_world, unfolded drawn_demo, unfolded g fst_conv snd_conv, folded b]
  from f demo_gcm_tag16 b show ?thesis by blast
qed

subsection \<open>Opening a sealed envelope\<close>

lemma demo_seal_braces:
  "fst (encryptData demo_webcrypto (lit ''{}'') (lit ''hunter2'') demo_world) =
     Inr (lit ''AwoRGB8mLTQ7QklQV15lbHN6gYiPlp2kq7K5wI2PAAAAAAAAAAAAAAAAAAAACw=='')"
  unfolding encryptData_envelope fst_conv drawn_demo by (simp add: demo_eval)

text \<open>
  C1, as amended.  With an AES-GCM whose decryption inverts its encryption, encryptData
  returns an envelope for every plaintext string and password, in every state of the
  random source, and decryptData with the same password returns the UTF-8 decoding of
  the UTF-8 encoding of the plaintext.  This is the plaintext itself whenever the
  plaintext is well-formed (no unpaired surrogate) and does not begin with U+FEFF.
\<close>

theorem open_seal_roundtrip:
  assumes "gcm_contract C"
  shows "\<exists>env. fst (encryptData C P W w) = Inr env \<and>
           fst (decryptData C env W w') = Inr (TextDecoder_decode (TextEncoder_encode P)) \<and>
           (wellFormed P \<and> (P = [] \<or> hd P \<noteq> 0xFEFF) \<longrightarrow> fst (decryptData C env W w') = Inr P)"
proof -
  obtain env where e: "fst (encryptData C P W w) = Inr env"
    by (simp add: encryptData_envelope)
  then have p: "projr (fst (encryptData C P W w)) = env" by simp
  from open_seal[OF assms, of P W w w'] p
  have d: "fst (decryptData C env W w') = Inr (TextDecoder_decode (TextEncoder_encode P))" by simp
  with e text_roundtrip[of P] show ?thesis by auto
qed

text \<open>Witness of C1: sealing and opening the text \<^verbatim>\<open>{}\<close> under the toy cipher.\<close>

theorem open_seal_roundtrip_witness:
  "gcm_contract demo_webcrypto \<and> wellFormed (lit ''{}'') \<and> hd (lit ''{}'') \<noteq> 0xFEFF \<and>
   fst (encryptData demo_webcrypto (lit ''{}'') (lit ''hunter2'') demo_world) =
     Inr (lit ''AwoRGB8mLTQ7QklQV15lbHN6gYiPlp2kq7K5wI2PAAAAAAAAAAAAAAAAAAAACw=='') \<and>
   fst (decryptData demo_webcrypto
     (lit ''AwoRGB8mLTQ7QklQV15lbHN6gYiPlp2kq7K5wI2PAAAAAAAAAAAAAAAAAAAACw=='') (lit ''hunter2'')
     demo_world) = Inr (lit ''{}'')"
proof -
  have wf: "wellFormed (lit ''{}'')" "hd (lit ''{}'') \<noteq> 0xFEFF"
    by (simp_all add: lit_def isLeadSurrogate_def isTrailSurrogate_def)
  from open_seal_roundtrip[OF demo_gcm_contract, of "lit ''{}''" "lit ''hunter2''" demo_world
      demo_world]
  obtain env where "fst (encryptData demo_webcrypto (lit ''{}'') (lit ''hunter2'') demo_world) = Inr env"
    and "wellFormed (lit ''{}'') \<and> (lit ''{}'' = [] \<or> hd (lit ''{}'') \<noteq> 0xFEFF) \<longrightarrow>
      fst (decryptData demo_webcrypto env (lit ''hunter2'') demo_world) = Inr (lit ''{}'')"
    by blast
  with demo_seal_braces wf demo_gcm_contract show ?thesis by simp
qed

lemma demo_seal_bom:
  "fst (encryptData demo_webcrypto [0xFEFF] (lit ''hunter2'') demo_world) =
     Inr (lit ''AwoRGB8mLTQ7QklQV15lbHN6gYiPlp2kq7K5wAHN0QAAAAAAAAAAAAAAAAAAAHw='')"
  unfolding encryptData_envelope fst_conv drawn_demo by (simp add: demo_eval)

lemma demo_open_bom:
  "fst (decryptData demo_webcrypto
      (lit ''AwoRGB8mLTQ7QklQV15lbHN6gYiPlp2kq7K5wAHN0QAAAAAAAAAAAAAAAAAAAHw='') (lit ''hunter2'')
      demo_world) = Inr []"
  unfolding decryptData_def by (simp add: demo_eval)

text \<open>
  C1 as stated fails: the plaintext that consists of the code unit U+FEFF is sealed, and
  opening its envelope with the same password returns the empty string, because the
  decoder drops a leading byte order mark.
\<close>

theorem open_seal_drops_byte_order_mark:
  "fst (encryptData demo_webcrypto [0xFEFF] (lit ''hunter2'') demo_world) =
     Inr (lit ''AwoRGB8mLTQ7QklQV15lbHN6gYiPlp2kq7K5wAHN0QAAAAAAAAAAAAAAAAAAAHw='') \<and>
   fst (decryptData demo_webcrypto
      (lit ''AwoRGB8mLTQ7QklQV15lbHN6gYiPlp2kq7K5wAHN0QAAAAAAAAAAAAAAAAAAAHw='') (lit ''hunter2'')
      demo_world) = Inr [] \<and>
   fst (decryptData demo_webcrypto
      (lit ''AwoRGB8mLTQ7QklQV15lbHN6gYiPlp2kq7K5wAHN0QAAAAAAAAAAAAAAAAAAAHw='') (lit ''hunter2'')
      demo_world) \<noteq> Inr [0xFEFF] \<and>
   TextDecoder_decode (TextEncoder_encode [0xFEFF]) = []"
proof -
  have "TextDecoder_decode (TextEncoder_encode [0xFEFF]) = []" by (simp add: demo_eval)
  with demo_seal_bom demo_open_bom show ?thesis by simp
qed

subsection \<open>Rejection\<close>


























subsection \<open>Randomness\<close>

lemma upt_28: "map (rng w) [0..<16] @ map (\<lambda>i. rng w (i + 16)) [0..<12] = map (rng w) [0..<28]"
proof -
  have "map (\<lambda>i. rng w (i + 16)) [0..<12] = map (rng w) (map (\<lambda>i. i + 16) [0..<12])"
    by (simp add: comp_def)
  also have "map (\<lambda>i. i + 16) [0..<12] = [16..<28]"
    using map_add_upt[of 16 12] by simp
  finally have "map (rng w) [0..<16] @ map (\<lambda>i. rng w (i + 16)) [0..<12] =
      map (rng w) ([0..<16] @ [16..<28])" by simp
  also have "[0..<16] @ [16..<28] = [0..<28]"
    using upt_add_eq_append[of 0 16 12] by simp
  finally show ?thesis .
qed

lemma drawn_28: "drawnSalt w @ drawnNonce w = map (rng w) [0..<28]"
  unfolding drawnSalt_def drawnNonce_def by (rule upt_28)

lemma shifted_28:
  "map (rng (w\<lparr>rng := (\<lambda>i. rng w (i + 28))\<rparr>)) [0..<28] = map (rng w) [28..<56]"
proof -
  have "map (rng (w\<lparr>rng := (\<lambda>i. rng w (i + 28))\<rparr>)) [0..<28] =
      map (rng w) (map (\<lambda>i. i + 28) [0..<28])"
    by (simp add: comp_def)
  also have "map (\<lambda>i. i + 28) [0..<28] = [28..<56]"
    using map_add_upt[of 28 28] by simp
  finally show ?thesis .
qed

lemma envelopes_equal_iff:
  "(base64_encode (drawnSalt w1 @ drawnNonce w1 @
        subtle_encrypt C (sealedKey C pw (drawnSalt w1)) (drawnNonce w1) p) =
    base64_encode (drawnSalt w2 @ drawnNonce w2 @
        subtle_encrypt C (sealedKey C pw (drawnSalt w2)) (drawnNonce w2) p)) =
   (drawnSalt w1 @ drawnNonce w1 = drawnSalt w2 @ drawnNonce w2)"
proof
  assume "base64_encode (drawnSalt w1 @ drawnNonce w1 @
        subtle_encrypt C (sealedKey C pw (drawnSalt w1)) (drawnNonce w1) p) =
    base64_encode (drawnSalt w2 @ drawnNonce w2 @
        subtle_encrypt C (sealedKey C pw (drawnSalt w2)) (drawnNonce w2) p)"
  then have "drawnSalt w1 @ drawnNonce w1 @
        subtle_encrypt C (sealedKey C pw (drawnSalt w1)) (drawnNonce w1) p =
      drawnSalt w2 @ drawnNonce w2 @
        subtle_encrypt C (sealedKey C pw (drawnSalt w2)) (drawnNonce w2) p"
    by (rule base64_encode_inj)
  then show "drawnSalt w1 @ drawnNonce w1 = drawnSalt w2 @ drawnNonce w2"
    by simp
next
  assume "drawnSalt w1 @ drawnNonce w1 = drawnSalt w2 @ drawnNonce w2"
  then have "drawnSalt w1 = drawnSalt w2 \<and> drawnNonce w1 = drawnNonce w2" by simp
  then show "base64_encode (drawnSalt w1 @ drawnNonce w1 @
        subtle_encrypt C (sealedKey C pw (drawnSalt w1)) (drawnNonce w1) p) =
    base64_encode (drawnSalt w2 @ drawnNonce w2 @
        subtle_encrypt C (sealedKey C pw (drawnSalt w2)) (drawnNonce w2) p)"
    by simp
qed

text \<open>
  C8.  A call of encryptData draws the next 28 bytes of the random source as salt and
  nonce, so a second call draws the 28 bytes that follow those of the first; the two
  envelopes of the same plaintext and password differ exactly when these two draws
  differ.  decryptData reads nothing of the world and leaves it unchanged: its outcome
  is a function of the envelope and the password.
\<close>

theorem seal_fresh_open_deterministic:
  "(fst (encryptData C P W w) \<noteq> fst (encryptData C P W (snd (encryptData C P W w)))) =
     (map (rng w) [0..<28] \<noteq> map (rng w) [28..<56]) \<and>
   drawnSalt w @ drawnNonce w = map (rng w) [0..<28] \<and>
   drawnSalt (snd (encryptData C P W w)) @ drawnNonce (snd (encryptData C P W w)) =
     map (rng w) [28..<56] \<and>
   fst (decryptData C env pw w1) = fst (decryptData C env pw w2) \<and>
   snd (decryptData C env pw w1) = w1"
proof -
  let ?w' = "w\<lparr>rng := (\<lambda>i. rng w (i + 28))\<rparr>"
  have s: "snd (encryptData C P W w) = ?w'" by (simp add: encryptData_envelope)
  have "(fst (encryptData C P W w) \<noteq> fst (encryptData C P W ?w')) =
      (drawnSalt w @ drawnNonce w \<noteq> drawnSalt ?w' @ drawnNonce ?w')"
    unfolding encryptData_envelope fst_conv sum.inject envelopes_equal_iff ..
  then have 1: "(fst (encryptData C P W w) \<noteq> fst (encryptData C P W (snd (encryptData C P W w)))) =
     (map (rng w) [0..<28] \<noteq> map (rng w) [28..<56])"
    unfolding s drawn_28 shifted_28 .
  have 2: "fst (decryptData C env pw w1) = fst (decryptData C env pw w2)"
    "snd (decryptData C env pw w1) = w1"
    by (simp_all add: decryptData_def Let_def split: sum.splits)
  from 1 2 show ?thesis unfolding s drawn_28 shifted_28 by simp
qed

text \<open>Witness of C8: two successive envelopes of \<^verbatim>\<open>{}\<close> in the test world.\<close>

theorem seal_fresh_open_deterministic_witness:
  "map (rng demo_world) [0..<28] \<noteq> map (rng demo_world) [28..<56] \<and>
   fst (encryptData demo_webcrypto (lit ''{}'') (lit ''hunter2'') demo_world) \<noteq>
   fst (encryptData demo_webcrypto (lit ''{}'') (lit ''hunter2'')
         (snd (encryptData demo_webcrypto (lit ''{}'') (lit ''hunter2'') demo_world)))"
proof -
  have "map (rng demo_world) [0..<28] ! 0 \<noteq> map (rng demo_world) [28..<56] ! 0"
    by (simp add: demo_world_def)
  then have d: "map (rng demo_world) [0..<28] \<noteq> map (rng demo_world) [28..<56]"
    by metis
  with seal_fresh_open_deterministic[of demo_webcrypto "lit ''{}''" "lit ''hunter2''" demo_world]
  show ?thesis by blast
qed

section \<open>Properties of WalletManager\<close>

lemma open_sealed:
  assumes "gcm_contract C" and "fst (encryptData C data pw w0) = Inr env"
  shows "decryptData C env pw w = (Inr (TextDecoder_decode (TextEncoder_encode data)), w)"
proof -
  from assms(2) have "projr (fst (encryptData C data pw w0)) = env" by simp
  with open_seal[OF assms(1), of data pw w0 w]
  have "fst (decryptData C env pw w) = Inr (TextDecoder_decode (TextEncoder_encode data))" by simp
  moreover have "snd (decryptData C env pw w) = w"
    by (simp add: decryptData_def Let_def split: sum.splits)
  ultimately show ?thesis by (metis prod.collapse)
qed

lemma decryptData_world: "snd (decryptData C env pw w) = w"
  by (simp add: decryptData_def Let_def split: sum.splits)

lemma base64_encode_nonempty: "bs \<noteq> [] \<Longrightarrow> base64_encode bs \<noteq> []"
  by (cases bs rule: base64_encode.cases) simp_all

lemma sealed_nonempty:
  assumes "fst (encryptData C data pw w0) = Inr env"
  shows "env \<noteq> []"
proof -
  from assms have "env = base64_encode (drawnSalt w0 @ drawnNonce w0 @
      subtle_encrypt C (sealedKey C pw (drawnSalt w0)) (drawnNonce w0) (TextEncoder_encode data))"
    by (simp add: encryptData_envelope)
  moreover have "drawnSalt w0 \<noteq> []" by (simp add: drawnSalt_def)
  ultimately show ?thesis by (simp add: base64_encode_nonempty)
qed

lemma encryptData_password_bytes:
  assumes "TextEncoder_encode pw = TextEncoder_encode pw'"
  shows "encryptData C data pw w0 = encryptData C data pw' w0"
  using assms by (simp add: encryptData_envelope sealedKey_def)

lemma handleUnlock_cases:
  assumes "localStorage w storageKey = Some env" and "env \<noteq> []"
  shows "handleUnlock C J (s, w) =
     (case fst (decryptData C env (password s) w) of
        Inl e \<Rightarrow> (s\<lparr>error := senhaIncorreta\<rparr>, w)
      | Inr d \<Rightarrow>
          (case JSON_parse J d of
             Inl e \<Rightarrow> (s\<lparr>error := senhaIncorreta\<rparr>, w)
           | Inr v \<Rightarrow> (s\<lparr>wallet := v, appState := dashboard, error := []\<rparr>, w)))"
proof -
  obtain r where r: "decryptData C env (password s) w = (r, w)"
    using decryptData_world[of C env "password s" w] by (metis prod.collapse)
  show ?thesis
    using assms by (simp add: handleUnlock_def r split: sum.splits)
qed

lemma handleUnlock_sealed:
  assumes "localStorage w storageKey = Some env"
    and "gcm_contract C" and "json_roundtrip J wd"
    and "fst (encryptData C (JSON_stringify J wd) W w0) = Inr env"
    and "TextEncoder_encode (password s) = TextEncoder_encode W"
  shows "handleUnlock C J (s, w) =
           (s\<lparr>wallet := js_WalletData wd, appState := dashboard, error := []\<rparr>, w)"
proof -
  from assms(3) have j: "wellFormed (JSON_stringify J wd)"
    "JSON_stringify J wd = [] \<or> hd (JSON_stringify J wd) \<noteq> 0xFEFF"
    "JSON_parse J (JSON_stringify J wd) = Inr (js_WalletData wd)"
    by (simp_all add: json_roundtrip_def)
  from assms(4) have e: "fst (encryptData C (JSON_stringify J wd) (password s) w0) = Inr env"
    unfolding encryptData_password_bytes[OF assms(5)] .
  have "decryptData C env (password s) w =
      (Inr (TextDecoder_decode (TextEncoder_encode (JSON_stringify J wd))), w)"
    by (rule open_sealed[OF assms(2) e])
  then have "fst (decryptData C env (password s) w) = Inr (JSON_stringify J wd)"
    by (simp add: text_roundtrip[OF j(1,2)])
  with handleUnlock_cases[OF assms(1) sealed_nonempty[OF assms(4)], of C J s] j(3)
  show ?thesis by simp
qed













subsection \<open>Creating, locking and unlocking\<close>

lemma handleCreateWallet_created:
  assumes "password s = confirmPassword s" and "8 \<le> length (password s)"
    and "fst (createWallet L (fst (generateMnemonic P w)) None w') = Inr nw"
  shows "handleCreateWallet P L C J (s, w) =
     (s\<lparr>mnemonicState := fst (generateMnemonic P w), wallet := js_WalletData nw, appState := create\<rparr>,
      (snd (encryptData C (JSON_stringify J nw) (password s) (snd (generateMnemonic P w))))
        \<lparr>localStorage :=
           (localStorage (snd (generateMnemonic P w)))
             (storageKey \<mapsto> projr (fst (encryptData C (JSON_stringify J nw) (password s)
                (snd (generateMnemonic P w)))))\<rparr>)"
proof -
  obtain m w1 where g: "generateMnemonic P w = (m, w1)" by (cases "generateMnemonic P w")
  have "fst (createWallet L m None w1) = fst (createWallet L m None w')"
    by (simp add: createWallet_def Let_def split: sum.splits option.splits)
  moreover have "snd (createWallet L m None w1) = w1"
    by (simp add: createWallet_def Let_def split: sum.splits option.splits)
  ultimately have c: "createWallet L m None w1 = (Inr nw, w1)"
    using assms(3) g by (metis fst_conv prod.collapse)
  show ?thesis
    using assms(1,2)
    by (simp add: handleCreateWallet_def g c encryptData_envelope)
qed

lemma created_state:
  assumes "password s = confirmPassword s" and "8 \<le> length (password s)"
    and "fst (createWallet L (fst (generateMnemonic P w)) None w) = Inr nw"
  shows "\<exists>env wc. env \<noteq> [] \<and> localStorage wc storageKey = Some env \<and>
           (\<exists>w0. fst (encryptData C (JSON_stringify J nw) (password s) w0) = Inr env) \<and>
           handleCreateWallet P L C J (s, w) =
             (s\<lparr>mnemonicState := fst (generateMnemonic P w), wallet := js_WalletData nw,
                appState := create\<rparr>, wc)"
proof -
  define w1 where "w1 = snd (generateMnemonic P w)"
  define env where "env = projr (fst (encryptData C (JSON_stringify J nw) (password s) w1))"
  define wc where "wc = (snd (encryptData C (JSON_stringify J nw) (password s) w1))
        \<lparr>localStorage := (localStorage w1)(storageKey \<mapsto> env)\<rparr>"
  have h: "handleCreateWallet P L C J (s, w) =
      (s\<lparr>mnemonicState := fst (generateMnemonic P w), wallet := js_WalletData nw, appState := create\<rparr>, wc)"
    unfolding wc_def env_def w1_def by (rule handleCreateWallet_created[OF assms])
  have e: "fst (encryptData C (JSON_stringify J nw) (password s) w1) = Inr env"
    unfolding env_def by (simp add: encryptData_envelope)
  have "env = base64_encode (drawnSalt w1 @ drawnNonce w1 @
        subtle_encrypt C (sealedKey C (password s) (drawnSalt w1)) (drawnNonce w1)
          (TextEncoder_encode (JSON_stringify J nw)))"
    unfolding env_def by (simp add: encryptData_envelope)
  moreover have "drawnSalt w1 \<noteq> []" by (simp add: drawnSalt_def)
  ultimately have ne: "env \<noteq> []" by (simp add: base64_encode_nonempty)
  have st: "localStorage wc storageKey = Some env" by (simp add: wc_def)
  from ne st e h show ?thesis by blast
qed


text \<open>
  The scenario of creation, lock and unlock.  From a state whose two passwords agree and
  have at least eight characters, handleCreateWallet generates a mnemonic, sets the
  wallet that createWallet returns for it, stores its envelope and shows the recovery
  phrase; handleLogout then removes the wallet from the state; and handleUnlock, with
  the same password typed again, sets the same wallet and moves to the dashboard.
\<close>

theorem create_lock_unlock:
  assumes "password s = confirmPassword s" and "8 \<le> length (password s)"
    and "fst (createWallet L (fst (generateMnemonic P w)) None w) = Inr nw"
    and "gcm_contract C" and "json_roundtrip J nw"
  shows "wallet (fst (handleCreateWallet P L C J (s, w))) = js_WalletData nw \<and>
         appState (fst (handleCreateWallet P L C J (s, w))) = create \<and>
         wallet (handleLogout (fst (handleCreateWallet P L C J (s, w)))) = js_null \<and>
         appState (handleLogout (fst (handleCreateWallet P L C J (s, w)))) = locked \<and>
         wallet (fst (handleUnlock C J
           ((handleLogout (fst (handleCreateWallet P L C J (s, w))))\<lparr>password := password s\<rparr>,
            snd (handleCreateWallet P L C J (s, w))))) = js_WalletData nw \<and>
         appState (fst (handleUnlock C J
           ((handleLogout (fst (handleCreateWallet P L C J (s, w))))\<lparr>password := password s\<rparr>,
            snd (handleCreateWallet P L C J (s, w))))) = dashboard"
proof -
  from created_state[OF assms(1-3), of C J]
  obtain env wc w0 where ne: "env \<noteq> []" and st: "localStorage wc storageKey = Some env"
    and e: "fst (encryptData C (JSON_stringify J nw) (password s) w0) = Inr env"
    and h: "handleCreateWallet P L C J (s, w) =
             (s\<lparr>mnemonicState := fst (generateMnemonic P w), wallet := js_WalletData nw,
                appState := create\<rparr>, wc)"
    by blast
  define s1 where "s1 = s\<lparr>mnemonicState := fst (generateMnemonic P w), wallet := js_WalletData nw,
                appState := create\<rparr>"
  define s2 where "s2 = (handleLogout s1)\<lparr>password := password s\<rparr>"
  have h': "handleCreateWallet P L C J (s, w) = (s1, wc)" unfolding s1_def by (rule h)
  have pw: "password s2 = password s" by (simp add: s2_def)
  have u: "handleUnlock C J (s2, wc) =
      (s2\<lparr>wallet := js_WalletData nw, appState := dashboard, error := []\<rparr>, wc)"
    by (rule handleUnlock_sealed[OF st assms(4,5), where ?w0.0 = w0 and W = "password s"])
      (simp_all only: pw e)
  have 1: "wallet s1 = js_WalletData nw" "appState s1 = create"
    "wallet (handleLogout s1) = js_null" "appState (handleLogout s1) = locked"
    by (simp_all add: s1_def handleLogout_def)
  have 2: "wallet (fst (handleUnlock C J (s2, wc))) = js_WalletData nw"
    "appState (fst (handleUnlock C J (s2, wc))) = dashboard"
    unfolding u by simp_all
  show ?thesis unfolding h' fst_conv snd_conv using 1 2 unfolding s2_def by blast
qed

text \<open>
  When the two passwords differ or the password has fewer than eight characters,
  handleCreateWallet leaves the world, the wallet and the application state as they were
  and only sets an error message.
\<close>

theorem handleCreateWallet_checks_passwords:
  assumes "password s \<noteq> confirmPassword s \<or> length (password s) < 8"
  shows "snd (handleCreateWallet P L C J (s, w)) = w \<and>
         wallet (fst (handleCreateWallet P L C J (s, w))) = wallet s \<and>
         appState (fst (handleCreateWallet P L C J (s, w))) = appState s \<and>
         error (fst (handleCreateWallet P L C J (s, w))) \<noteq> []"
  using assms by (auto simp: handleCreateWallet_def lit_def)

lemma entropy_groups:
  assumes "4 \<le> length (sha256 P e)" and "length e = 16"
  shows "length (chunks 11 (bytesToBits e @ checksumBits P e)) = 12"
    and "\<forall>g\<in>set (chunks 11 (bytesToBits e @ checksumBits P e)). length g = 11"
proof -
  have "4 \<le> length (bytesToBits (sha256 P e))"
    using assms(1) by (simp add: length_bytesToBits)
  then have "length (checksumBits P e) = 4"
    using assms(2) by (simp add: checksumBits_def)
  then have "length (bytesToBits e @ checksumBits P e) = 12 * 11"
    using assms(2) by (simp add: length_bytesToBits)
  from chunks_exact[of 11 _ 12, OF _ this]
  show "length (chunks 11 (bytesToBits e @ checksumBits P e)) = 12"
    and "\<forall>g\<in>set (chunks 11 (bytesToBits e @ checksumBits P e)). length g = 11"
    by simp_all
qed

lemma constant_wordlist_phrase:
  assumes "\<forall>i<2048. wordlist P ! i = x" and "4 \<le> length (sha256 P e)" and "length e = 16"
  shows "entropyToMnemonic P e = join space (replicate 12 x)"
proof -
  let ?groups = "chunks 11 (bytesToBits e @ checksumBits P e)"
  note g = entropy_groups[OF assms(2,3)]
  have "map (\<lambda>g. wordlist P ! bitsToNat g) ?groups = map (\<lambda>g. x) ?groups"
  proof (rule map_cong[OF refl])
    fix g assume "g \<in> set ?groups"
    with g(2) have "length g = 11" by simp
    with bitsToNat_less[of g] have "bitsToNat g < 2048" by simp
    with assms(1) show "wordlist P ! bitsToNat g = x" by simp
  qed
  also have "\<dots> = replicate 12 x" using g(1) by (simp add: map_replicate_const)
  finally show ?thesis by (simp add: entropyToMnemonic_def)
qed

lemma replicate_12: "replicate 12 x = [x, x, x, x, x, x, x, x, x, x, x, x]"
  by (simp add: numeral_eq_Suc)

lemma quiet_phrase: "fst (generateMnemonic quiet_bip39 w) = lit ''w w w w w w w w w w w w''"
proof -
  have "\<forall>i<2048. wordlist quiet_bip39 ! i = lit ''w''" by (simp add: quiet_bip39_def)
  from constant_wordlist_phrase[OF this, of "map (rng w) [0..<16]"]
  have "entropyToMnemonic quiet_bip39 (map (rng w) [0..<16]) = join space (replicate 12 (lit ''w''))"
    by (simp add: quiet_bip39_def)
  then show ?thesis
    by (simp add: generateMnemonic_def bip39_generateMnemonic_def getRandomValues_def
        replicate_12 lit_def space_def)
qed

lemma demo_created_wallet:
  "fst (createWallet demo_keylib (fst (generateMnemonic quiet_bip39 demo_world)) None demo_world) =
     Inr demo_created"
  unfolding quiet_phrase
  by (simp add: demo_createWallet coinType_def toHex_def hexDigit_def lit_def demo_created_def)

lemma demo_created_json: "json_roundtrip demo_json demo_created"
  by (simp add: json_roundtrip_def demo_json_def demo_created_def lit_def
      isLeadSurrogate_def isTrailSurrogate_def)

text \<open>Witness of the scenario, on the test doubles.\<close>

theorem create_lock_unlock_witness:
  "password demo_onboarding = confirmPassword demo_onboarding \<and>
   8 \<le> length (password demo_onboarding) \<and>
   gcm_contract demo_webcrypto \<and> json_roundtrip demo_json demo_created \<and>
   wallet (fst (handleCreateWallet quiet_bip39 demo_keylib demo_webcrypto demo_json
     (demo_onboarding, demo_world))) = js_WalletData demo_created \<and>
   appState (fst (handleCreateWallet quiet_bip39 demo_keylib demo_webcrypto demo_json
     (demo_onboarding, demo_world))) = create \<and>
   wallet (fst (handleUnlock demo_webcrypto demo_json
     ((handleLogout (fst (handleCreateWallet quiet_bip39 demo_keylib demo_webcrypto demo_json
         (demo_onboarding, demo_world))))\<lparr>password := password demo_onboarding\<rparr>,
      snd (handleCreateWallet quiet_bip39 demo_keylib demo_webcrypto demo_json
         (demo_onboarding, demo_world))))) = js_WalletData demo_created \<and>
   appState (fst (handleUnlock demo_webcrypto demo_json
     ((handleLogout (fst (handleCreateWallet quiet_bip39 demo_keylib demo_webcrypto demo_json
         (demo_onboarding, demo_world))))\<lparr>password := password demo_onboarding\<rparr>,
      snd (handleCreateWallet quiet_bip39 demo_keylib demo_webcrypto demo_json
         (demo_onboarding, demo_world))))) = dashboard"
proof -
  have p: "password demo_onboarding = confirmPassword demo_onboarding"
    "8 \<le> length (password demo_onboarding)"
    by (simp_all add: demo_onboarding_def lit_def)
  from create_lock_unlock[OF p demo_created_wallet demo_gcm_contract demo_created_json]
    p demo_gcm_contract demo_created_json
  show ?thesis by blast
qed

text \<open>Witness of the password checks: a password of five characters.\<close>

theorem handleCreateWallet_checks_passwords_witness:
  "length (password (demo_onboarding\<lparr>password := lit ''short'', confirmPassword := lit ''short''\<rparr>)) < 8 \<and>
   snd (handleCreateWallet quiet_bip39 demo_keylib demo_webcrypto demo_json
     (demo_onboarding\<lparr>password := lit ''short'', confirmPassword := lit ''short''\<rparr>, demo_world)) =
     demo_world \<and>
   wallet (fst (handleCreateWallet quiet_bip39 demo_keylib demo_webcrypto demo_json
     (demo_onboarding\<lparr>password := lit ''short'', confirmPassword := lit ''short''\<rparr>, demo_world))) =
     js_null"
proof -
  have l: "length (password (demo_onboarding\<lparr>password := lit ''short'',
      confirmPassword := lit ''short''\<rparr>)) < 8"
    by (simp add: lit_def)
  have w: "wallet (demo_onboarding\<lparr>password := lit ''short'', confirmPassword := lit ''short''\<rparr>) = js_null"
    by (simp add: demo_onboarding_def)
  from handleCreateWallet_checks_passwords[of "demo_onboarding\<lparr>password := lit ''short'',
      confirmPassword := lit ''short''\<rparr>" quiet_bip39 demo_keylib demo_webcrypto demo_json demo_world]
    l w show ?thesis by simp
qed

end
